(* ===== verification/Prelude.thy ===== *)
theory Prelude
  imports Main "HOL-Library.Word" "HOL-Library.List_Lexorder" "HOL-Library.Product_Lexorder"
begin

unbundle bit_operations_syntax

text \<open>
  The vocabulary every component shares: the machine integers and byte strings of the
  Rust sources, the panics a call can end in, and the parts of the standard library that
  work on bytes (decimal printing and parsing, ASCII case, UTF-8 validation). \<open>types.rs\<close>
  is modelled here too. Arithmetic wraps, as in the release build that
  \<open>.codecrafters/compile.sh\<close> makes.
\<close>

section \<open>Machine integers and byte strings\<close>

type_synonym u8 = "8 word"
type_synonym u16 = "16 word"
type_synonym u32 = "32 word"
type_synonym u64 = "64 word"
type_synonym i32 = "32 word" \<comment> \<open>read with \<open>sint\<close>\<close>
type_synonym i64 = "64 word" \<comment> \<open>read with \<open>sint\<close>\<close>
type_synonym f64 = "64 word" \<comment> \<open>the IEEE-754 bit pattern\<close>

type_synonym bytes = "u8 list"
type_synonym key = bytes
type_synonym stream_key = "u64 \<times> u64"

named_theorems byte_simps "facts that evaluate and compare byte strings"
named_theorems decimal_simps "facts about decimal printing and parsing"

text \<open>A string literal of the source, as the bytes \<open>as_bytes()\<close> yields.\<close>

definition as_bytes :: "string \<Rightarrow> bytes" where
  "as_bytes s = map of_char s"

lemma as_bytes_Nil [simp]: "as_bytes [] = []"
  by (simp add: as_bytes_def)

lemma as_bytes_Cons [byte_simps]: "as_bytes (c # s) = of_char c # as_bytes s"
  by (simp add: as_bytes_def)

lemma length_as_bytes [simp]: "length (as_bytes s) = length s"
  by (simp add: as_bytes_def)

lemma of_char_word8_inject: "(of_char c :: u8) = of_char d \<longleftrightarrow> c = d"
proof
  assume "(of_char c :: u8) = of_char d"
  then have "word_of_nat (of_char c) = (word_of_nat (of_char d) :: u8)"
    by (simp add: of_nat_of_char)
  then have "take_bit 8 (of_char c :: nat) = take_bit 8 (of_char d)"
    by (simp add: word_of_nat_eq_iff)
  then have "(of_char c :: nat) mod 256 = of_char d mod 256"
    by (simp add: take_bit_eq_mod)
  then show "c = d"
    by simp
qed simp

lemma as_bytes_eq_iff [simp]: "as_bytes s = as_bytes t \<longleftrightarrow> s = t"
  by (auto simp: as_bytes_def of_char_word8_inject inj_def
      intro: map_injective [of of_char s t])


section \<open>Panics\<close>

text \<open>
  A call of the source either returns or unwinds. \<open>panic\<close> says which construct of the
  source unwound: \<open>unwrap\<close>/\<open>expect\<close> on a failure, an index or slice out of range,
  \<open>assert!\<close>, or an explicit \<open>panic!\<close>.
\<close>

datatype panic = UnwrapPanic | IndexPanic | AssertPanic | ExplicitPanic

datatype 'a outcome = Return 'a | Panic panic

primrec obind :: "'a outcome \<Rightarrow> ('a \<Rightarrow> 'b outcome) \<Rightarrow> 'b outcome" where
  "obind (Return x) f = f x"
| "obind (Panic p) f = Panic p"

definition unwrap :: "'a option \<Rightarrow> 'a outcome" where
  "unwrap x = (case x of Some v \<Rightarrow> Return v | None \<Rightarrow> Panic UnwrapPanic)"

definition index :: "'a list \<Rightarrow> nat \<Rightarrow> 'a outcome" where
  "index xs i = (if i < length xs then Return (xs ! i) else Panic IndexPanic)"

definition assert :: "bool \<Rightarrow> unit outcome" where
  "assert b = (if b then Return () else Panic AssertPanic)"

primrec omap :: "('a \<Rightarrow> 'b outcome) \<Rightarrow> 'a list \<Rightarrow> 'b list outcome" where
  "omap f [] = Return []"
| "omap f (x # xs) = obind (f x) (\<lambda>y. obind (omap f xs) (\<lambda>ys. Return (y # ys)))"

lemma unwrap_simps [simp]: "unwrap (Some v) = Return v" "unwrap None = Panic UnwrapPanic"
  by (simp_all add: unwrap_def)

lemma obind_assoc: "obind (obind x f) g = obind x (\<lambda>a. obind (f a) g)"
  by (cases x) simp_all

lemma obind_eq_Return [simp]: "obind m f = Return y \<longleftrightarrow> (\<exists>x. m = Return x \<and> f x = Return y)"
  by (cases m) auto

lemma unwrap_eq_Return [simp]: "unwrap x = Return v \<longleftrightarrow> x = Some v"
  by (cases x) auto

lemma index_eq_Return [simp]: "index xs i = Return v \<longleftrightarrow> i < length xs \<and> v = xs ! i"
  by (auto simp: index_def)

lemma assert_eq_Return [simp]: "assert b = Return u \<longleftrightarrow> b"
  by (simp add: assert_def)

lemma omap_Return: "(\<And>x. x \<in> set xs \<Longrightarrow> f x = Return (g x)) \<Longrightarrow> omap f xs = Return (map g xs)"
  by (induction xs) auto

section \<open>ASCII\<close>

definition is_ascii_digit :: "u8 \<Rightarrow> bool" where
  "is_ascii_digit b \<longleftrightarrow> 48 \<le> b \<and> b \<le> 57"

definition ascii_upper :: "u8 \<Rightarrow> u8" where
  "ascii_upper b = (if 97 \<le> b \<and> b \<le> 122 then b - 32 else b)"

definition ascii_lower :: "u8 \<Rightarrow> u8" where
  "ascii_lower b = (if 65 \<le> b \<and> b \<le> 90 then b + 32 else b)"

definition to_ascii_uppercase :: "bytes \<Rightarrow> bytes" where
  "to_ascii_uppercase s = map ascii_upper s"

definition eq_ignore_ascii_case :: "bytes \<Rightarrow> bytes \<Rightarrow> bool" where
  "eq_ignore_ascii_case a b \<longleftrightarrow> map ascii_lower a = map ascii_lower b"

lemma eq_ignore_ascii_case_refl [simp]: "eq_ignore_ascii_case a a"
  by (simp add: eq_ignore_ascii_case_def)

section \<open>Decimal printing and parsing\<close>

fun nat_to_string :: "nat \<Rightarrow> bytes" where
  "nat_to_string n =
     (if n < 10 then [48 + word_of_nat n]
      else nat_to_string (n div 10) @ [48 + word_of_nat (n mod 10)])"

declare nat_to_string.simps [simp del]

definition int_to_string :: "int \<Rightarrow> bytes" where
  "int_to_string i = (if i < 0 then 45 # nat_to_string (nat (- i)) else nat_to_string (nat i))"

definition digit_val :: "u8 \<Rightarrow> nat" where
  "digit_val b = unat (b - 48)"

definition digits_val :: "bytes \<Rightarrow> nat" where
  "digits_val = foldl (\<lambda>a b. 10 * a + digit_val b) 0"

text \<open>
  \<open>str::parse\<close> for an unsigned and a signed type of \<open>w\<close> bits: an optional sign (a minus
  sign only for signed types), then at least one digit and nothing else, in range.
\<close>

definition digits_from_str :: "bytes \<Rightarrow> nat option" where
  "digits_from_str s =
     (if s \<noteq> [] \<and> list_all is_ascii_digit s then Some (digits_val s) else None)"

definition uint_from_str :: "nat \<Rightarrow> bytes \<Rightarrow> nat option" where
  "uint_from_str w s =
     (case digits_from_str (case s of b # r \<Rightarrow> if b = 43 then r else s | [] \<Rightarrow> s) of
        Some n \<Rightarrow> if n < 2 ^ w then Some n else None
      | None \<Rightarrow> None)"

definition int_from_str :: "nat \<Rightarrow> bytes \<Rightarrow> int option" where
  "int_from_str w s =
     (case s of
        [] \<Rightarrow> None
      | b # r \<Rightarrow>
          if b = 45 then
            (case digits_from_str r of
               Some n \<Rightarrow> if n \<le> 2 ^ (w - 1) then Some (- int n) else None
             | None \<Rightarrow> None)
          else
            (case digits_from_str (if b = 43 then r else s) of
               Some n \<Rightarrow> if n < 2 ^ (w - 1) then Some (int n) else None
             | None \<Rightarrow> None))"

definition u64_from_str :: "bytes \<Rightarrow> u64 option" where
  "u64_from_str s = map_option word_of_nat (uint_from_str 64 s)"

definition i64_from_str :: "bytes \<Rightarrow> i64 option" where
  "i64_from_str s = map_option word_of_int (int_from_str 64 s)"

definition usize_from_str :: "bytes \<Rightarrow> nat option" where
  "usize_from_str s = uint_from_str 64 s"

definition u64_to_string :: "u64 \<Rightarrow> bytes" where
  "u64_to_string n = nat_to_string (unat n)"

definition i64_to_string :: "i64 \<Rightarrow> bytes" where
  "i64_to_string i = int_to_string (sint i)"

lemma digit_byte:
  assumes "n < 10"
  shows "is_ascii_digit (48 + word_of_nat n)" and "digit_val (48 + word_of_nat n) = n"
proof -
  have n: "unat (word_of_nat n :: u8) = n"
    using assms by (simp add: unat_of_nat)
  have "unat (48 + word_of_nat n :: u8) = 48 + n"
    using assms n by (simp add: unat_word_ariths)
  then show "is_ascii_digit (48 + word_of_nat n)"
    using assms by (simp add: is_ascii_digit_def word_le_nat_alt)
  show "digit_val (48 + word_of_nat n) = n"
    using n by (simp add: digit_val_def)
qed

lemma digits_val_snoc [decimal_simps]: "digits_val (s @ [b]) = 10 * digits_val s + digit_val b"
  by (simp add: digits_val_def)

lemma nat_to_string_nonempty [simp]: "nat_to_string n \<noteq> []"
  by (subst nat_to_string.simps) simp

lemma nat_to_string_digits [simp]: "list_all is_ascii_digit (nat_to_string n)"
proof (induction n rule: nat_to_string.induct)
  case (1 n)
  then show ?case
    by (subst nat_to_string.simps) (simp add: digit_byte)
qed

lemma digits_val_nat_to_string [simp]: "digits_val (nat_to_string n) = n"
proof (induction n rule: nat_to_string.induct)
  case (1 n)
  show ?case
  proof (cases "n < 10")
    case True
    then show ?thesis
      by (subst nat_to_string.simps) (simp add: digits_val_def digit_byte)
  next
    case False
    with 1 show ?thesis
      by (subst nat_to_string.simps) (simp add: digits_val_snoc digit_byte)
  qed
qed

lemma digits_from_str_nat_to_string [simp]: "digits_from_str (nat_to_string n) = Some n"
  by (simp add: digits_from_str_def)

lemma nat_to_string_Cons:
  obtains b r where "nat_to_string n = b # r" and "is_ascii_digit b"
  using nat_to_string_nonempty [of n] nat_to_string_digits [of n]
  by (cases "nat_to_string n") auto

lemma not_sign_digit [simp]: "\<not> is_ascii_digit 43" "\<not> is_ascii_digit 45"
  by (simp_all add: is_ascii_digit_def)

lemma digit_not_sign: "is_ascii_digit b \<Longrightarrow> b \<noteq> 43" "is_ascii_digit b \<Longrightarrow> b \<noteq> 45"
  by auto

lemma uint_from_str_nat_to_string [simp]:
  "uint_from_str w (nat_to_string n) = (if n < 2 ^ w then Some n else None)"
proof -
  obtain b r where br: "nat_to_string n = b # r" "is_ascii_digit b"
    by (rule nat_to_string_Cons)
  then have "b \<noteq> 43"
    by auto
  with br digits_from_str_nat_to_string [of n] show ?thesis
    by (simp add: uint_from_str_def)
qed

lemma int_from_str_int_to_string:
  assumes "- (2 ^ (w - 1)) \<le> i" and "i < 2 ^ (w - 1)"
  shows "int_from_str w (int_to_string i) = Some i"
proof (cases "i < 0")
  case True
  with assms(1) have "nat (- i) \<le> 2 ^ (w - 1)"
    by (simp add: nat_le_iff)
  with True show ?thesis
    by (simp add: int_from_str_def int_to_string_def)
next
  case False
  obtain b r where br: "nat_to_string (nat i) = b # r" "is_ascii_digit b"
    by (rule nat_to_string_Cons)
  then have "b \<noteq> 43" "b \<noteq> 45"
    by auto
  moreover have "digits_from_str (b # r) = Some (nat i)"
    using br digits_from_str_nat_to_string [of "nat i"] by simp
  moreover have "nat i < 2 ^ (w - 1)"
    using assms(2) by (simp add: nat_less_iff)
  ultimately show ?thesis
    using br False by (simp add: int_from_str_def int_to_string_def)
qed

lemma u64_from_to_string [simp]: "u64_from_str (u64_to_string n) = Some n"
  using unsigned_less [of n]
  by (simp add: u64_from_str_def u64_to_string_def)

lemma i64_from_to_string [simp]: "i64_from_str (i64_to_string i) = Some i"
proof -
  have "- (2 ^ 63) \<le> sint i" "sint i < 2 ^ 63"
    using sint_greater_eq [of i] sint_less [of i] by simp_all
  then show ?thesis
    by (simp add: i64_from_str_def i64_to_string_def int_from_str_int_to_string)
qed


section \<open>UTF-8\<close>

text \<open>
  \<open>str::from_utf8\<close>: the well-formed byte sequences of the Unicode standard (no overlong
  forms, no surrogates, nothing above U+10FFFF).
\<close>

definition is_cont :: "u8 \<Rightarrow> bool" where
  "is_cont b \<longleftrightarrow> 128 \<le> b \<and> b \<le> 191"

definition second_of_3 :: "u8 \<Rightarrow> u8 \<Rightarrow> bool" where
  "second_of_3 b c \<longleftrightarrow>
     (if b = 224 then 160 \<le> c \<and> c \<le> 191 else if b = 237 then 128 \<le> c \<and> c \<le> 159 else is_cont c)"

definition second_of_4 :: "u8 \<Rightarrow> u8 \<Rightarrow> bool" where
  "second_of_4 b c \<longleftrightarrow>
     (if b = 240 then 144 \<le> c \<and> c \<le> 191 else if b = 244 then 128 \<le> c \<and> c \<le> 143 else is_cont c)"

fun utf8_valid :: "bytes \<Rightarrow> bool" where
  "utf8_valid [] = True"
| "utf8_valid (b # r) =
     (if b < 128 then utf8_valid r
      else if 194 \<le> b \<and> b \<le> 223 then
        (case r of c # r' \<Rightarrow> is_cont c \<and> utf8_valid r' | _ \<Rightarrow> False)
      else if 224 \<le> b \<and> b \<le> 239 then
        (case r of c # d # r' \<Rightarrow> second_of_3 b c \<and> is_cont d \<and> utf8_valid r' | _ \<Rightarrow> False)
      else if 240 \<le> b \<and> b \<le> 244 then
        (case r of c # d # e # r' \<Rightarrow> second_of_4 b c \<and> is_cont d \<and> is_cont e \<and> utf8_valid r'
         | _ \<Rightarrow> False)
      else False)"

definition from_utf8 :: "bytes \<Rightarrow> bytes option" where
  "from_utf8 s = (if utf8_valid s then Some s else None)"

lemma utf8_valid_ascii: "list_all (\<lambda>b. b < 128) s \<Longrightarrow> utf8_valid s"
  by (induction s) auto

lemma utf8_valid_digits: "list_all is_ascii_digit s \<Longrightarrow> utf8_valid s"
  by (rule utf8_valid_ascii)
    (auto simp: list_all_iff is_ascii_digit_def word_le_nat_alt word_less_nat_alt)

lemma utf8_valid_nat_to_string [simp]: "utf8_valid (nat_to_string n)"
  by (rule utf8_valid_digits) simp

lemma utf8_valid_int_to_string [simp]: "utf8_valid (int_to_string i)"
  by (simp add: int_to_string_def)


section \<open>Index ranges\<close>

text \<open>
  The bounds of \<open>LRANGE\<close> and \<open>ZRANGE\<close>: a negative index counts from the end, and the
  range is cut to the list. All in 32-bit two's complement.
\<close>

definition i32_max :: "i32 \<Rightarrow> i32 \<Rightarrow> i32" where
  "i32_max a b = (if sint a < sint b then b else a)"

definition i32_min :: "i32 \<Rightarrow> i32 \<Rightarrow> i32" where
  "i32_min a b = (if sint b < sint a then b else a)"

definition range_bounds :: "i32 \<Rightarrow> i32 \<Rightarrow> i32 \<Rightarrow> i32 \<times> i32" where
  "range_bounds start stop len =
     (let a = (if sint start < 0 then start + len else start);
          a = i32_max 0 a;
          b = (if sint stop < 0 then stop + len else stop);
          b = i32_min (len - 1) b
      in (a, b))"

text \<open>The index a bound stands for, as an integer.\<close>

definition resolve_index :: "i32 \<Rightarrow> nat \<Rightarrow> int" where
  "resolve_index i n = (if sint i < 0 then sint i + int n else sint i)"

lemma sint_small_nat: "n < 2 ^ 31 \<Longrightarrow> sint (word_of_nat n :: i32) = int n"
  by (simp add: signed_of_nat signed_take_bit_int_eq_self)

lemma sint_i32_bounds: "- (2 ^ 31) \<le> sint (i :: i32)" "sint (i :: i32) < 2 ^ 31"
  using sint_greater_eq [of i] sint_less [of i] by simp_all

lemma sint_resolved:
  assumes "n < 2 ^ 31"
  shows "sint (if sint i < 0 then i + word_of_nat n else i) = resolve_index i n"
proof (cases "sint i < 0")
  case True
  have "sint (i + word_of_nat n) = signed_take_bit 31 (sint i + int n)"
    using assms by (simp add: sint_word_ariths sint_small_nat)
  also have "\<dots> = sint i + int n"
    using True assms sint_i32_bounds [of i] by (intro signed_take_bit_int_eq_self) auto
  finally show ?thesis
    using True by (simp add: resolve_index_def)
qed (simp add: resolve_index_def)

lemma sint_max_min: "sint (i32_max a b) = max (sint a) (sint b)" "sint (i32_min a b) = min (sint a) (sint b)"
  by (simp_all add: i32_max_def i32_min_def)

lemma range_bounds_int:
  assumes "n < 2 ^ 31" and "range_bounds start stop (word_of_nat n) = (a, b)"
  shows "sint a = max 0 (resolve_index start n)" and "sint b = min (int n - 1) (resolve_index stop n)"
proof -
  have "sint (word_of_nat n - 1 :: i32) = signed_take_bit 31 (int n - 1)"
    using assms(1) by (simp add: sint_word_ariths sint_small_nat)
  also have "\<dots> = int n - 1"
    using assms(1) by (intro signed_take_bit_int_eq_self) auto
  finally have last: "sint (word_of_nat n - 1 :: i32) = int n - 1" .
  show "sint a = max 0 (resolve_index start n)" and "sint b = min (int n - 1) (resolve_index stop n)"
    using assms by (auto simp: range_bounds_def Let_def sint_max_min sint_resolved last)
qed

end
