(* ===== verification/Float64.thy ===== *)
theory Float64
  imports Prelude
begin

text \<open>
  The \<open>f64\<close> operations of the Rust standard library that the sources use, on IEEE-754
  binary64 bit patterns: rounding to nearest, ties to even; the arithmetic operators and
  comparisons; \<open>total_cmp\<close>; the casts from and to \<open>u64\<close> and \<open>u32\<close>; \<open>str::parse\<close> and
  \<open>to_string\<close>. A NaN result is the quiet NaN with an empty payload.
\<close>

section \<open>Bit patterns\<close>

definition f64_neg :: "f64 \<Rightarrow> bool" where
  "f64_neg x \<longleftrightarrow> bit x 63"

definition f64_expo :: "f64 \<Rightarrow> nat" where
  "f64_expo x = unat (drop_bit 52 x AND 0x7FF)"

definition f64_frac :: "f64 \<Rightarrow> nat" where
  "f64_frac x = unat (x AND 0xFFFFFFFFFFFFF)"

definition f64_inf :: f64 where
  "f64_inf = 0x7FF0000000000000"

definition f64_nan :: f64 where
  "f64_nan = 0x7FF8000000000000"

definition f64_negate :: "f64 \<Rightarrow> f64" where
  "f64_negate x = x XOR 0x8000000000000000"

definition with_sign :: "bool \<Rightarrow> f64 \<Rightarrow> f64" where
  "with_sign neg x = (if neg then f64_negate x else x)"

definition is_nan :: "f64 \<Rightarrow> bool" where
  "is_nan x \<longleftrightarrow> f64_expo x = 2047 \<and> f64_frac x \<noteq> 0"

definition is_inf :: "f64 \<Rightarrow> bool" where
  "is_inf x \<longleftrightarrow> f64_expo x = 2047 \<and> f64_frac x = 0"

text \<open>The magnitude of a finite value is \<open>f64_num x / f64_den x\<close>.\<close>

definition f64_mant :: "f64 \<Rightarrow> nat" where
  "f64_mant x = (if f64_expo x = 0 then f64_frac x else 2 ^ 52 + f64_frac x)"

definition f64_num :: "f64 \<Rightarrow> nat" where
  "f64_num x = f64_mant x * 2 ^ (max (f64_expo x) 1 - 1075)"

definition f64_den :: "f64 \<Rightarrow> nat" where
  "f64_den x = 2 ^ (1075 - max (f64_expo x) 1)"

section \<open>Rounding\<close>

fun bit_len :: "nat \<Rightarrow> nat" where
  "bit_len n = (if n = 0 then 0 else Suc (bit_len (n div 2)))"

declare bit_len.simps [simp del]

text \<open>\<open>num / den\<close> divided by \<open>2 ^ e\<close>, as a fraction.\<close>

definition scale2 :: "nat \<Rightarrow> nat \<Rightarrow> int \<Rightarrow> nat \<times> nat" where
  "scale2 num den e = (num * 2 ^ nat (- e), den * 2 ^ nat e)"

text \<open>
  \<open>round_f64 num den\<close> is the binary64 value nearest to \<open>num / den\<close>. With the unit in the
  last place \<open>2 ^ e\<close>, the bit pattern is \<open>(e + 1074) * 2 ^ 52 + q\<close>, where \<open>q\<close> is the
  rounded quotient: a carry out of \<open>q\<close> moves into the exponent field.
\<close>

definition div_half_even :: "nat \<Rightarrow> nat \<Rightarrow> nat" where
  "div_half_even n d =
     (let q = n div d; r = n mod d in
      if d < 2 * r \<or> (2 * r = d \<and> odd q) then Suc q else q)"

definition round_f64 :: "nat \<Rightarrow> nat \<Rightarrow> f64" where
  "round_f64 num den =
     (if num = 0 then 0
      else
        let k = int (bit_len num) - int (bit_len den);
            e0 = k - 53;
            (n0, d0) = scale2 num den e0;
            e1 = (if 2 ^ 53 * d0 \<le> n0 then e0 + 1 else e0);
            e = max e1 (- 1074);
            (n, d) = scale2 num den e;
            bits = (nat (e + 1074)) * 2 ^ 52 + div_half_even n d
        in if 2047 * 2 ^ 52 \<le> bits then f64_inf else word_of_nat bits)"

definition round_signed :: "bool \<Rightarrow> nat \<Rightarrow> nat \<Rightarrow> f64" where
  "round_signed neg num den = with_sign neg (round_f64 num den)"

section \<open>Arithmetic and comparison\<close>

definition f64_mul :: "f64 \<Rightarrow> f64 \<Rightarrow> f64" where
  "f64_mul x y =
     (let neg = (f64_neg x \<noteq> f64_neg y) in
      if is_nan x \<or> is_nan y then f64_nan
      else if is_inf x \<or> is_inf y then
        (if (is_inf x \<or> f64_mant x \<noteq> 0) \<and> (is_inf y \<or> f64_mant y \<noteq> 0)
         then with_sign neg f64_inf else f64_nan)
      else round_signed neg (f64_num x * f64_num y) (f64_den x * f64_den y))"

definition f64_div :: "f64 \<Rightarrow> f64 \<Rightarrow> f64" where
  "f64_div x y =
     (let neg = (f64_neg x \<noteq> f64_neg y) in
      if is_nan x \<or> is_nan y then f64_nan
      else if is_inf x then (if is_inf y then f64_nan else with_sign neg f64_inf)
      else if is_inf y then with_sign neg 0
      else if f64_mant y = 0 then (if f64_mant x = 0 then f64_nan else with_sign neg f64_inf)
      else round_signed neg (f64_num x * f64_den y) (f64_den x * f64_num y))"

definition f64_signed_num :: "f64 \<Rightarrow> int" where
  "f64_signed_num x = (if f64_neg x then - int (f64_num x) else int (f64_num x))"

definition f64_add :: "f64 \<Rightarrow> f64 \<Rightarrow> f64" where
  "f64_add x y =
     (if is_nan x \<or> is_nan y then f64_nan
      else if is_inf x then
        (if is_inf y \<and> f64_neg x \<noteq> f64_neg y then f64_nan else x)
      else if is_inf y then y
      else
        let n = f64_signed_num x * int (f64_den y) + f64_signed_num y * int (f64_den x)
        in if n = 0 then with_sign (f64_neg x \<and> f64_neg y) 0
           else round_signed (n < 0) (nat \<bar>n\<bar>) (f64_den x * f64_den y))"

definition f64_sub :: "f64 \<Rightarrow> f64 \<Rightarrow> f64" where
  "f64_sub x y = f64_add x (f64_negate y)"

text \<open>The operators \<open><\<close>, \<open><=\<close> and \<open>==\<close>: false when an operand is NaN.\<close>

definition f64_key :: "f64 \<Rightarrow> int" where
  "f64_key x =
     (let m = int (unat (x AND 0x7FFFFFFFFFFFFFFF)) in if f64_neg x then - m else m)"

definition f64_lt :: "f64 \<Rightarrow> f64 \<Rightarrow> bool" where
  "f64_lt x y \<longleftrightarrow> \<not> is_nan x \<and> \<not> is_nan y \<and> f64_key x < f64_key y"

definition f64_le :: "f64 \<Rightarrow> f64 \<Rightarrow> bool" where
  "f64_le x y \<longleftrightarrow> \<not> is_nan x \<and> \<not> is_nan y \<and> f64_key x \<le> f64_key y"

definition f64_eq :: "f64 \<Rightarrow> f64 \<Rightarrow> bool" where
  "f64_eq x y \<longleftrightarrow> \<not> is_nan x \<and> \<not> is_nan y \<and> f64_key x = f64_key y"

section \<open>Casts\<close>

text \<open>Float to integer casts truncate and saturate; NaN becomes zero.\<close>

definition f64_to_uint :: "nat \<Rightarrow> f64 \<Rightarrow> nat" where
  "f64_to_uint w x =
     (if is_nan x \<or> f64_neg x then 0
      else if is_inf x then 2 ^ w - 1
      else min (f64_num x div f64_den x) (2 ^ w - 1))"

definition f64_to_u64 :: "f64 \<Rightarrow> u64" where
  "f64_to_u64 x = word_of_nat (f64_to_uint 64 x)"

definition f64_to_u32 :: "f64 \<Rightarrow> u32" where
  "f64_to_u32 x = word_of_nat (f64_to_uint 32 x)"

definition f64_of_nat :: "nat \<Rightarrow> f64" where
  "f64_of_nat n = round_f64 n 1"

section \<open>Parsing\<close>

definition split_digits :: "bytes \<Rightarrow> bytes \<times> bytes" where
  "split_digits s = (takeWhile is_ascii_digit s, dropWhile is_ascii_digit s)"

text \<open>The exponent part: nothing, or \<open>e\<close>, an optional sign, and digits up to the end.\<close>

definition parse_exponent :: "bytes \<Rightarrow> int option" where
  "parse_exponent s =
     (case s of
        [] \<Rightarrow> Some 0
      | b # r \<Rightarrow>
          if b = 101 \<or> b = 69 then
            (case r of
               c # t \<Rightarrow>
                 if c = 45 then map_option (\<lambda>n. - int n) (digits_from_str t)
                 else if c = 43 then map_option int (digits_from_str t)
                 else map_option int (digits_from_str r)
             | [] \<Rightarrow> None)
          else None)"

definition decimal_f64 :: "bool \<Rightarrow> nat \<Rightarrow> int \<Rightarrow> f64" where
  "decimal_f64 neg n e = round_signed neg (n * 10 ^ nat e) (10 ^ nat (- e))"

definition parse_unsigned_f64 :: "bool \<Rightarrow> bytes \<Rightarrow> f64 option" where
  "parse_unsigned_f64 neg s =
     (if eq_ignore_ascii_case s (as_bytes ''inf'') \<or> eq_ignore_ascii_case s (as_bytes ''infinity'')
      then Some (with_sign neg f64_inf)
      else if eq_ignore_ascii_case s (as_bytes ''nan'') then Some (with_sign neg f64_nan)
      else
        let (ip, r) = split_digits s;
            (fp, r') = (case r of b # t \<Rightarrow> if b = 46 then split_digits t else ([], r) | [] \<Rightarrow> ([], r))
        in if ip = [] \<and> fp = [] then None
           else map_option (\<lambda>e. decimal_f64 neg (digits_val (ip @ fp)) (e - int (length fp)))
                  (parse_exponent r'))"

definition f64_from_str :: "bytes \<Rightarrow> f64 option" where
  "f64_from_str s =
     (case s of
        [] \<Rightarrow> None
      | b # r \<Rightarrow>
          if b = 45 then parse_unsigned_f64 True r
          else if b = 43 then parse_unsigned_f64 False r
          else parse_unsigned_f64 False s)"

section \<open>Printing\<close>

text \<open>
  \<open>to_string\<close> prints the shortest decimal that rounds to the value, the nearest one when
  there are several (the larger of two equally near), with no exponent. \<open>dec_place\<close> is the
  \<open>p\<close> with \<open>10 ^ (p - 1) \<le> num / den < 10 ^ p\<close>.
\<close>

definition scale10 :: "nat \<Rightarrow> nat \<Rightarrow> int \<Rightarrow> nat \<times> nat" where
  "scale10 num den e = (num * 10 ^ nat (- e), den * 10 ^ nat e)"

definition dec_place :: "nat \<Rightarrow> nat \<Rightarrow> int" where
  "dec_place num den =
     (if den \<le> num then int (length (nat_to_string (num div den)))
      else
        let p = int (length (nat_to_string num)) - int (length (nat_to_string den));
            (n, d) = scale10 num den p
        in if d \<le> n then p + 1 else p)"

definition shortest_at :: "f64 \<Rightarrow> nat \<Rightarrow> (nat \<times> int) option" where
  "shortest_at x k =
     (let num = f64_num x; den = f64_den x;
          u = dec_place num den - int k;
          (n, d) = scale10 num den u;
          lo = n div d;
          mag = (if f64_neg x then f64_negate x else x);
          lo_ok = (decimal_f64 False lo u = mag);
          hi_ok = (decimal_f64 False (Suc lo) u = mag)
      in if lo_ok \<and> (\<not> hi_ok \<or> 2 * (n mod d) < d) then Some (lo, u)
         else if hi_ok then Some (Suc lo, u)
         else None)"

fun shortest_from :: "f64 \<Rightarrow> nat \<Rightarrow> nat \<Rightarrow> nat \<times> int" where
  "shortest_from x k 0 = (f64_num x, 0)"
| "shortest_from x k (Suc fuel) =
     (case shortest_at x k of Some r \<Rightarrow> r | None \<Rightarrow> shortest_from x (Suc k) fuel)"

text \<open>\<open>n * 10 ^ e\<close> in plain decimal, without trailing zeros after the point.\<close>

definition strip_zeros :: "bytes \<Rightarrow> bytes" where
  "strip_zeros s = rev (dropWhile (\<lambda>b. b = 48) (rev s))"

definition plain_decimal :: "nat \<Rightarrow> int \<Rightarrow> bytes" where
  "plain_decimal n e =
     (if 0 \<le> e then nat_to_string (n * 10 ^ nat e)
      else
        let f = nat (- e);
            ip = nat_to_string (n div 10 ^ f);
            r = nat_to_string (n mod 10 ^ f);
            fp = strip_zeros (replicate (f - length r) 48 @ r)
        in if fp = [] then ip else ip @ [46] @ fp)"

definition f64_to_string :: "f64 \<Rightarrow> bytes" where
  "f64_to_string x =
     (if is_nan x then as_bytes ''NaN''
      else
        (if f64_neg x then [45] else []) @
        (if is_inf x then as_bytes ''inf''
         else if f64_mant x = 0 then [48]
         else let (n, e) = shortest_from x 1 17 in plain_decimal n e))"

section \<open>The total order\<close>

text \<open>\<open>f64::total_cmp\<close>: both operands as \<open>i64\<close>, magnitude bits flipped when negative.\<close>

definition total_key :: "f64 \<Rightarrow> int" where
  "total_key x = sint (x XOR drop_bit 1 (signed_drop_bit 63 x))"


lemma total_key_eq:
  "total_key x = sint (if bit x 63 then x XOR mask 63 else x)"
proof -
  have "signed_drop_bit 63 x = (if bit x 63 then - 1 else 0)"
  proof (rule bit_word_eqI)
    fix n assume "n < LENGTH(64)"
    then show "bit (signed_drop_bit 63 x) n = bit (if bit x 63 then - 1 else 0 :: f64) n"
      by (cases n) (auto simp: bit_signed_drop_bit_iff)
  qed
  moreover have "drop_bit 1 (- 1 :: f64) = mask 63"
    by (simp add: mask_eq_exp_minus_1)
  ultimately show ?thesis
    by (simp add: total_key_def)
qed

lemma total_key_inject: "total_key x = total_key y \<longleftrightarrow> x = y"
proof
  assume "total_key x = total_key y"
  then have eq: "(if bit x 63 then x XOR mask 63 else x) = (if bit y 63 then y XOR mask 63 else y)"
    by (simp add: total_key_eq signed_word_eqI)
  have sign: "bit (if bit w 63 then w XOR mask 63 else w) 63 = bit w 63" for w :: f64
    by (simp add: bit_xor_iff bit_mask_iff)
  have "bit x 63 = bit y 63"
    using arg_cong [OF eq, of "\<lambda>w. bit w 63"] by (simp only: sign)
  show "x = y"
  proof (cases "bit x 63")
    case True
    with eq \<open>bit x 63 = bit y 63\<close> have "x XOR mask 63 = y XOR mask 63"
      by simp
    then have "(x XOR mask 63) XOR mask 63 = (y XOR mask 63) XOR mask 63"
      by (rule arg_cong)
    then show ?thesis
      by (simp only: xor.assoc xor_self_eq xor.right_neutral)
  next
    case False
    with eq \<open>bit x 63 = bit y 63\<close> show ?thesis
      by simp
  qed
qed simp

section \<open>Square root\<close>

fun isqrt :: "nat \<Rightarrow> nat" where
  "isqrt n =
     (if n = 0 then 0
      else let r = 2 * isqrt (n div 4) in if (r + 1) * (r + 1) \<le> n then r + 1 else r)"

declare isqrt.simps [simp del]

text \<open>
  Sixty-four more bits than the argument carries, and a last bit that says whether the
  root is inexact, are enough to round correctly.
\<close>

definition f64_sqrt :: "f64 \<Rightarrow> f64" where
  "f64_sqrt x =
     (if is_nan x then f64_nan
      else if \<not> is_inf x \<and> f64_mant x = 0 then x
      else if f64_neg x then f64_nan
      else if is_inf x then x
      else
        let m = f64_num x * f64_den x * 4 ^ 64;
            r = isqrt m
        in round_f64 (2 * r + (if r * r = m then 0 else 1)) (2 * f64_den x * 2 ^ 64))"


section \<open>Evaluation\<close>

text \<open>Two stages: the text to \<open>decimal_f64\<close>, then the rounding.\<close>

lemmas f64_parse_eval =
  f64_from_str_def parse_unsigned_f64_def split_digits_def parse_exponent_def byte_simps
  eq_ignore_ascii_case_def ascii_lower_def is_ascii_digit_def digits_val_def digit_val_def

lemmas f64_round_eval =
  round_f64_def bit_len.simps scale2_def Let_def div_half_even_def decimal_f64_def
  round_signed_def with_sign_def f64_negate_def

end
