(* ===== verification/Geocoding.thy ===== *)
theory Geocoding
  imports Float64
begin

text \<open>
  \<open>geocoding.rs\<close>: geohash scores. The bits of the two 26-bit grid numbers are interleaved;
  decoding takes them apart again and returns the centre of the grid cell. The functions
  \<open>sin\<close>, \<open>cos\<close> and \<open>asin\<close> of the platform, whose precision Rust leaves open, are arguments
  of \<open>haversine\<close>.
\<close>

section \<open>Constants\<close>

text \<open>Bit patterns; \<open>constants_ok\<close> checks them against the literals of the source.\<close>

definition MIN_LATITUDE :: f64 where "MIN_LATITUDE = 0xC0554345B1A57F00"
definition MAX_LATITUDE :: f64 where "MAX_LATITUDE = 0x40554345B1A57F00"
definition MIN_LONGITUDE :: f64 where "MIN_LONGITUDE = 0xC066800000000000"
definition MAX_LONGITUDE :: f64 where "MAX_LONGITUDE = 0x4066800000000000"

definition LATITUDE_RANGE :: f64 where
  "LATITUDE_RANGE = f64_sub MAX_LATITUDE MIN_LATITUDE"

definition LONGITUDE_RANGE :: f64 where
  "LONGITUDE_RANGE = f64_sub MAX_LONGITUDE MIN_LONGITUDE"

definition f64_2 :: f64 where "f64_2 = 0x4000000000000000"
definition f64_2_26 :: f64 where "f64_2_26 = 0x4190000000000000"
definition f64_pi :: f64 where "f64_pi = 0x400921FB54442D18"
definition f64_180 :: f64 where "f64_180 = 0x4066800000000000"
definition EARTH_RADIUS_IN_METERS :: f64 where "EARTH_RADIUS_IN_METERS = 0x41584F6F63E51090"

record coordinates =
  latitude :: f64
  longitude :: f64

section \<open>Interleaving\<close>

definition spread_int32_to_int64 :: "u32 \<Rightarrow> u64" where
  "spread_int32_to_int64 v =
     (let result = ucast v;
          result = (result OR push_bit 16 result) AND 0x0000FFFF0000FFFF;
          result = (result OR push_bit 8 result) AND 0x00FF00FF00FF00FF;
          result = (result OR push_bit 4 result) AND 0x0F0F0F0F0F0F0F0F;
          result = (result OR push_bit 2 result) AND 0x3333333333333333
      in (result OR push_bit 1 result) AND 0x5555555555555555)"

definition compact_int64_to_int32 :: "u64 \<Rightarrow> u32" where
  "compact_int64_to_int32 v =
     (let result = v AND 0x5555555555555555;
          result = (result OR drop_bit 1 result) AND 0x3333333333333333;
          result = (result OR drop_bit 2 result) AND 0x0F0F0F0F0F0F0F0F;
          result = (result OR drop_bit 4 result) AND 0x00FF00FF00FF00FF;
          result = (result OR drop_bit 8 result) AND 0x0000FFFF0000FFFF
      in ucast ((result OR drop_bit 16 result) AND 0x00000000FFFFFFFF))"

definition interleave :: "u32 \<Rightarrow> u32 \<Rightarrow> u64" where
  "interleave x y =
     (let x_spread = spread_int32_to_int64 x;
          y_spread = spread_int32_to_int64 y;
          y_shifted = push_bit 1 y_spread
      in x_spread OR y_shifted)"

section \<open>Coordinates\<close>

text \<open>The edge \<open>minimum + extent * (n / 2^26)\<close> of a grid cell.\<close>

definition grid_edge :: "f64 \<Rightarrow> f64 \<Rightarrow> u32 \<Rightarrow> f64" where
  "grid_edge minimum extent n =
     f64_add minimum (f64_mul extent (f64_div (f64_of_nat (unat n)) f64_2_26))"

definition convert_grid_numbers_to_coordinates :: "u32 \<Rightarrow> u32 \<Rightarrow> coordinates" where
  "convert_grid_numbers_to_coordinates grid_latitude_number grid_longitude_number =
     (let grid_latitude_min = grid_edge MIN_LATITUDE LATITUDE_RANGE grid_latitude_number;
          grid_latitude_max = grid_edge MIN_LATITUDE LATITUDE_RANGE (grid_latitude_number + 1);
          grid_longitude_min = grid_edge MIN_LONGITUDE LONGITUDE_RANGE grid_longitude_number;
          grid_longitude_max = grid_edge MIN_LONGITUDE LONGITUDE_RANGE (grid_longitude_number + 1)
      in \<lparr>latitude = f64_div (f64_add grid_latitude_min grid_latitude_max) f64_2,
          longitude = f64_div (f64_add grid_longitude_min grid_longitude_max) f64_2\<rparr>)"

definition decode :: "u64 \<Rightarrow> coordinates" where
  "decode geo_code =
     (let y = drop_bit 1 geo_code;
          x = geo_code;
          grid_latitude_number = compact_int64_to_int32 x;
          grid_longitude_number = compact_int64_to_int32 y
      in convert_grid_numbers_to_coordinates grid_latitude_number grid_longitude_number)"

definition encode :: "f64 \<Rightarrow> f64 \<Rightarrow> u64" where
  "encode lat lon =
     (let normalized_latitude =
            f64_div (f64_mul f64_2_26 (f64_sub lat MIN_LATITUDE)) LATITUDE_RANGE;
          normalized_longitude =
            f64_div (f64_mul f64_2_26 (f64_sub lon MIN_LONGITUDE)) LONGITUDE_RANGE
      in interleave (f64_to_u32 normalized_latitude) (f64_to_u32 normalized_longitude))"

definition to_radians :: "f64 \<Rightarrow> f64" where
  "to_radians x = f64_mul x (f64_div f64_pi f64_180)"

definition haversine :: "(f64 \<Rightarrow> f64) \<Rightarrow> (f64 \<Rightarrow> f64) \<Rightarrow> (f64 \<Rightarrow> f64) \<Rightarrow> coordinates \<Rightarrow> coordinates \<Rightarrow> f64" where
  "haversine sin cos asin c1 c2 =
     (let lat1 = to_radians (latitude c1);
          lon1 = to_radians (longitude c1);
          lat2 = to_radians (latitude c2);
          lon2 = to_radians (longitude c2);
          u = sin (f64_div (f64_sub lat2 lat1) f64_2);
          v = sin (f64_div (f64_sub lon2 lon1) f64_2);
          a = f64_add (f64_mul u u) (f64_mul (f64_mul (f64_mul (cos lat1) (cos lat2)) v) v)
      in f64_mul (f64_mul f64_2 EARTH_RADIUS_IN_METERS) (asin (f64_sqrt a)))"


section \<open>Interleaved bits come apart\<close>

text \<open>The five masks: blocks of \<open>k\<close> ones and \<open>k\<close> zeros.\<close>

lemma mask_table:
  "\<forall>n \<in> set [0..<64]. bit (0x5555555555555555 :: u64) n = even (n div 1)"
  "\<forall>n \<in> set [0..<64]. bit (0x3333333333333333 :: u64) n = even (n div 2)"
  "\<forall>n \<in> set [0..<64]. bit (0x0F0F0F0F0F0F0F0F :: u64) n = even (n div 4)"
  "\<forall>n \<in> set [0..<64]. bit (0x00FF00FF00FF00FF :: u64) n = even (n div 8)"
  "\<forall>n \<in> set [0..<64]. bit (0x0000FFFF0000FFFF :: u64) n = even (n div 16)"
  by code_simp+

lemma bit_from_table:
  fixes m :: u64
  assumes "\<forall>n \<in> set [0..<64]. bit m n = P n"
  shows "bit m n \<longleftrightarrow> n < 64 \<and> P n"
proof (cases "n < 64")
  case True
  then show ?thesis
    using assms by simp
next
  case False
  then show ?thesis
    using bit_imp_le_length [of m n] by auto
qed

lemmas bit_masks = mask_table [THEN bit_from_table]

text \<open>Bit \<open>n\<close> of one masked step, the mask decided first.\<close>

lemma bit_spread_step:
  fixes r :: u64
  shows "bit ((r OR push_bit k r) AND m) n \<longleftrightarrow>
    (if bit m n then (if bit r n then True else if k \<le> n then bit r (n - k) else False) else False)"
  using bit_imp_le_length [of m n] by (auto simp: bit_and_iff bit_or_iff bit_push_bit_iff)

lemma bit_compact_step:
  fixes r :: u64
  shows "bit ((r OR drop_bit k r) AND m) n \<longleftrightarrow>
    (if bit m n then (if bit r n then True else bit r (k + n)) else False)"
  by (auto simp: bit_and_iff bit_or_iff bit_drop_bit_eq)

lemma bit_first_mask:
  fixes r :: u64
  shows "bit (r AND m) n \<longleftrightarrow> (if bit m n then bit r n else False)"
  by (auto simp: bit_and_iff)

lemma bit_widened:
  "bit (ucast (v :: u32) :: u64) n \<longleftrightarrow> (if n < 32 then bit v n else False)"
  using bit_imp_le_length [of v n] by (auto simp: bit_unsigned_iff)

lemma bit_narrowed:
  "bit (ucast (w AND 0xFFFFFFFF) :: u32) n \<longleftrightarrow> (if n < 32 then bit (w :: u64) n else False)"
proof -
  have "(0xFFFFFFFF :: u64) = mask 32"
    by (simp add: mask_eq_exp_minus_1)
  then show ?thesis
    by (simp only: bit_unsigned_iff bit_and_iff bit_mask_iff) auto
qed

lemma all_below_32:
  "(\<forall>n < 32. P n) \<longleftrightarrow> list_all P [0, 1, 2, 3, 4, 5, 6, 7, 8, 9, 10, 11, 12, 13, 14, 15, 16, 17, 18,
     19, 20, 21, 22, 23, 24, 25, 26, 27, 28, 29, 30, 31 :: nat]"
proof -
  have list: "[0..<32] = [0, 1, 2, 3, 4, 5, 6, 7, 8, 9, 10, 11, 12, 13, 14, 15, 16, 17, 18,
     19, 20, 21, 22, 23, 24, 25, 26, 27, 28, 29, 30, 31 :: nat]"
    by code_simp
  have "(\<forall>n < 32. P n) \<longleftrightarrow> list_all P [0..<32]"
    by (auto simp: list_all_iff simp del: upt_rec_numeral)
  then show ?thesis
    by (simp only: list)
qed

lemma spread_bits:
  assumes "n < 32"
  shows "bit (spread_int32_to_int64 v) (2 * n) = bit v n"
    and "\<not> bit (spread_int32_to_int64 v) (2 * n + 1)"
proof -
  define r0 :: u64 where "r0 = ucast v"
  define r1 where "r1 = (r0 OR push_bit 16 r0) AND 0x0000FFFF0000FFFF"
  define r2 where "r2 = (r1 OR push_bit 8 r1) AND 0x00FF00FF00FF00FF"
  define r3 where "r3 = (r2 OR push_bit 4 r2) AND 0x0F0F0F0F0F0F0F0F"
  define r4 where "r4 = (r3 OR push_bit 2 r3) AND 0x3333333333333333"
  define r5 where "r5 = (r4 OR push_bit 1 r4) AND 0x5555555555555555"
  have r0: "bit r0 n \<longleftrightarrow> (if n < 32 then bit v n else False)" for n
    by (simp only: r0_def bit_widened)
  note steps = r1_def r2_def r3_def r4_def r5_def
  note bits = steps [THEN arg_cong [of _ _ bit], THEN fun_cong, unfolded bit_spread_step bit_masks]
  have eq: "spread_int32_to_int64 v = r5"
    by (simp only: spread_int32_to_int64_def Let_def steps r0_def)
  have "\<forall>n < 32. bit r5 (2 * n) = bit v n"
    unfolding all_below_32 by (simp add: bits r0)
  with assms eq show "bit (spread_int32_to_int64 v) (2 * n) = bit v n"
    by simp
  show "\<not> bit (spread_int32_to_int64 v) (2 * n + 1)"
    unfolding eq bits by simp
qed

lemma compact_bits:
  assumes "n < 32"
  shows "bit (compact_int64_to_int32 v) n = bit v (2 * n)"
proof -
  define r1 where "r1 = v AND 0x5555555555555555"
  define r2 where "r2 = (r1 OR drop_bit 1 r1) AND 0x3333333333333333"
  define r3 where "r3 = (r2 OR drop_bit 2 r2) AND 0x0F0F0F0F0F0F0F0F"
  define r4 where "r4 = (r3 OR drop_bit 4 r3) AND 0x00FF00FF00FF00FF"
  define r5 where "r5 = (r4 OR drop_bit 8 r4) AND 0x0000FFFF0000FFFF"
  define r6 where "r6 = r5 OR drop_bit 16 r5"
  note steps = r2_def r3_def r4_def r5_def
  note bits = r1_def [THEN arg_cong [of _ _ bit], THEN fun_cong, unfolded bit_first_mask bit_masks]
    steps [THEN arg_cong [of _ _ bit], THEN fun_cong, unfolded bit_compact_step bit_masks]
  have r6: "bit r6 n \<longleftrightarrow> (if bit r5 n then True else bit r5 (16 + n))" for n
    by (simp add: r6_def bit_or_iff bit_drop_bit_eq)
  have eq: "compact_int64_to_int32 v = ucast (r6 AND 0xFFFFFFFF)"
    by (simp only: compact_int64_to_int32_def Let_def r1_def steps r6_def)
  have "\<forall>n < 32. bit r6 n = bit v (2 * n)"
    unfolding all_below_32 by (simp add: bits r6 numeral_2_eq_2 [symmetric])
  with assms show ?thesis
    by (simp only: eq bit_narrowed if_True)
qed

lemma bit_interleave:
  assumes "n < 32"
  shows "bit (interleave x y) (2 * n) = bit x n"
    and "bit (interleave x y) (Suc (2 * n)) = bit y n"
proof -
  have shifted: "bit (push_bit 1 w) m \<longleftrightarrow> m < 64 \<and> 0 < m \<and> bit w (m - 1)" for w :: u64 and m
    by (simp only: bit_push_bit_iff) (auto simp: Suc_le_eq)
  show "bit (interleave x y) (2 * n) = bit x n"
    using assms spread_bits(1) [OF assms, of x] spread_bits(2) [of "n - 1" y]
    by (cases n) (simp_all only: interleave_def Let_def bit_or_iff shifted, simp_all)
  show "bit (interleave x y) (Suc (2 * n)) = bit y n"
    using assms spread_bits(1) [OF assms, of y] spread_bits(2) [OF assms, of x]
    by (simp only: interleave_def Let_def bit_or_iff shifted) simp
qed

lemma compact_interleave:
  "compact_int64_to_int32 (interleave x y) = x"
  "compact_int64_to_int32 (drop_bit 1 (interleave x y)) = y"
  by (rule bit_word_eqI; simp add: compact_bits bit_interleave bit_drop_bit_eq)+

text \<open>The bit patterns of the constants, checked against the literals of the source.\<close>

lemma constants_ok:
  "f64_from_str (as_bytes ''-85.05112878'') = Some MIN_LATITUDE"
  "f64_from_str (as_bytes ''85.05112878'') = Some MAX_LATITUDE"
  "f64_from_str (as_bytes ''-180'') = Some MIN_LONGITUDE"
  "f64_from_str (as_bytes ''180'') = Some MAX_LONGITUDE"
  "f64_from_str (as_bytes ''2'') = Some f64_2"
  "f64_of_nat (2 ^ 26) = f64_2_26"
  "f64_from_str (as_bytes ''3.14159265358979323846264338327950288'') = Some f64_pi"
  "f64_from_str (as_bytes ''180'') = Some f64_180"
  "f64_from_str (as_bytes ''6372797.560856'') = Some EARTH_RADIUS_IN_METERS"
  by (simp_all add: f64_parse_eval MIN_LATITUDE_def MAX_LATITUDE_def MIN_LONGITUDE_def
      MAX_LONGITUDE_def f64_2_def f64_2_26_def f64_pi_def f64_180_def EARTH_RADIUS_IN_METERS_def)
    (simp_all add: f64_round_eval f64_of_nat_def)

lemma interleave_compact: "interleave (compact_int64_to_int32 w) (compact_int64_to_int32 (drop_bit 1 w)) = w"
proof (rule bit_word_eqI)
  fix n :: nat
  assume "n < LENGTH(64)"
  then have "n div 2 < 32"
    by simp
  then show "bit (interleave (compact_int64_to_int32 w) (compact_int64_to_int32 (drop_bit 1 w))) n = bit w n"
    by (cases "even n") (auto elim!: evenE oddE simp: bit_interleave compact_bits bit_drop_bit_eq)
qed

section \<open>Properties\<close>

text \<open>
  C40. Geohash interleaving loses nothing: the two grid numbers are read back from the 64-bit
  score they are interleaved into, and every 64-bit score is the interleaving of what is read
  from it. So \<open>decode\<close> of an interleaved score is the centre of exactly that grid cell.
\<close>

theorem geohash_roundtrip:
  "compact_int64_to_int32 (interleave x y) = x
   \<and> compact_int64_to_int32 (drop_bit 1 (interleave x y)) = y
   \<and> interleave (compact_int64_to_int32 w) (compact_int64_to_int32 (drop_bit 1 w)) = w
   \<and> decode (interleave x y) = convert_grid_numbers_to_coordinates x y"
  by (simp only: compact_interleave interleave_compact decode_def Let_def simp_thms)

end
