(* ===== verification/Parser.thy ===== *)
theory Parser
  imports Prelude "HOL-Library.Sublist"
begin

text \<open>
  \<open>parser.rs\<close>: parser combinators over a slice of bytes. A parser maps its input to a
  value and the rest of the slice (\<open>POk\<close>), to a \<open>ParseError\<close> (\<open>PErr\<close>, one constructor
  per message of the source, with the values the message prints), to a panic (\<open>PPanic\<close>),
  or never returns (\<open>PLoop\<close>: \<open>many0\<close> and \<open>many1\<close> call a parser that succeeds without
  consuming input over and over).
\<close>

datatype parse_error =
    NoByte u8 bytes
  | NoTag bytes
  | NoTagStr bytes
  | NoTagNoCase bytes
  | ExpectedBytes nat nat
  | NoneMatched bytes
  | NoDelimiter bytes bytes
  | NoMatches
  | BadInteger bytes
  | BadFloat bytes
  | LeIntegerPrefix u8
  | LeBytesPrefix u8
  | LeStringPrefix u8
  | RdbEntryNotFound
  | ArrayTooShort nat
  | UnknownFirstByte u8 bytes

datatype 'a presult = POk 'a bytes | PErr parse_error | PPanic panic | PLoop

type_synonym 'a parser = "bytes \<Rightarrow> 'a presult"

section \<open>Sequencing and choice\<close>

definition pbind :: "'a presult \<Rightarrow> ('a \<Rightarrow> bytes \<Rightarrow> 'b presult) \<Rightarrow> 'b presult" where
  "pbind r f =
     (case r of POk a rest \<Rightarrow> f a rest | PErr e \<Rightarrow> PErr e | PPanic p \<Rightarrow> PPanic p | PLoop \<Rightarrow> PLoop)"

text \<open>The macro \<open>and!\<close> for two to seven parsers.\<close>

definition and2 :: "'a parser \<Rightarrow> 'b parser \<Rightarrow> ('a \<times> 'b) parser" where
  "and2 p1 p2 input =
     pbind (p1 input) (\<lambda>a rest. pbind (p2 rest) (\<lambda>b rest. POk (a, b) rest))"

definition and3 :: "'a parser \<Rightarrow> 'b parser \<Rightarrow> 'c parser \<Rightarrow> ('a \<times> 'b \<times> 'c) parser" where
  "and3 p1 p2 p3 input =
     pbind (p1 input) (\<lambda>a rest. pbind (p2 rest) (\<lambda>b rest. pbind (p3 rest) (\<lambda>c rest.
       POk (a, b, c) rest)))"

definition and4 :: "'a parser \<Rightarrow> 'b parser \<Rightarrow> 'c parser \<Rightarrow> 'd parser \<Rightarrow> ('a \<times> 'b \<times> 'c \<times> 'd) parser" where
  "and4 p1 p2 p3 p4 input =
     pbind (p1 input) (\<lambda>a rest. pbind (p2 rest) (\<lambda>b rest. pbind (p3 rest) (\<lambda>c rest. pbind (p4 rest) (\<lambda>d rest.
       POk (a, b, c, d) rest))))"

definition and5 :: "'a parser \<Rightarrow> 'b parser \<Rightarrow> 'c parser \<Rightarrow> 'd parser \<Rightarrow> 'e parser
    \<Rightarrow> ('a \<times> 'b \<times> 'c \<times> 'd \<times> 'e) parser" where
  "and5 p1 p2 p3 p4 p5 input =
     pbind (p1 input) (\<lambda>a rest. pbind (p2 rest) (\<lambda>b rest. pbind (p3 rest) (\<lambda>c rest.
     pbind (p4 rest) (\<lambda>d rest. pbind (p5 rest) (\<lambda>e rest. POk (a, b, c, d, e) rest)))))"

definition and6 :: "'a parser \<Rightarrow> 'b parser \<Rightarrow> 'c parser \<Rightarrow> 'd parser \<Rightarrow> 'e parser \<Rightarrow> 'f parser
    \<Rightarrow> ('a \<times> 'b \<times> 'c \<times> 'd \<times> 'e \<times> 'f) parser" where
  "and6 p1 p2 p3 p4 p5 p6 input =
     pbind (p1 input) (\<lambda>a rest. pbind (p2 rest) (\<lambda>b rest. pbind (p3 rest) (\<lambda>c rest.
     pbind (p4 rest) (\<lambda>d rest. pbind (p5 rest) (\<lambda>e rest. pbind (p6 rest) (\<lambda>f rest.
       POk (a, b, c, d, e, f) rest))))))"

definition and7 :: "'a parser \<Rightarrow> 'b parser \<Rightarrow> 'c parser \<Rightarrow> 'd parser \<Rightarrow> 'e parser \<Rightarrow> 'f parser \<Rightarrow> 'g parser
    \<Rightarrow> ('a \<times> 'b \<times> 'c \<times> 'd \<times> 'e \<times> 'f \<times> 'g) parser" where
  "and7 p1 p2 p3 p4 p5 p6 p7 input =
     pbind (p1 input) (\<lambda>a rest. pbind (p2 rest) (\<lambda>b rest. pbind (p3 rest) (\<lambda>c rest.
     pbind (p4 rest) (\<lambda>d rest. pbind (p5 rest) (\<lambda>e rest. pbind (p6 rest) (\<lambda>f rest.
     pbind (p7 rest) (\<lambda>g rest. POk (a, b, c, d, e, f, g) rest)))))))"

text \<open>The macro \<open>or!\<close>: the second parser runs when the first returns an error.\<close>

definition or2 :: "'a parser \<Rightarrow> 'a parser \<Rightarrow> 'a parser" where
  "or2 p1 p2 input = (case p1 input of PErr _ \<Rightarrow> p2 input | r \<Rightarrow> r)"

definition or3 :: "'a parser \<Rightarrow> 'a parser \<Rightarrow> 'a parser \<Rightarrow> 'a parser" where
  "or3 p1 p2 p3 = or2 p1 (or2 p2 p3)"

definition or4 :: "'a parser \<Rightarrow> 'a parser \<Rightarrow> 'a parser \<Rightarrow> 'a parser \<Rightarrow> 'a parser" where
  "or4 p1 p2 p3 p4 = or2 p1 (or2 p2 (or2 p3 p4))"

section \<open>Primitive parsers\<close>

definition starts_with :: "bytes \<Rightarrow> bytes \<Rightarrow> bool" where
  "starts_with input p \<longleftrightarrow> take (length p) input = p"

definition byte :: "u8 \<Rightarrow> u8 parser" where
  "byte b input =
     (case input of
        x # rest \<Rightarrow> if x = b then POk b rest else PErr (NoByte b input)
      | [] \<Rightarrow> PErr (NoByte b input))"

definition tag :: "bytes \<Rightarrow> bytes parser" where
  "tag expected input =
     (if starts_with input expected
      then POk (take (length expected) input) (drop (length expected) input)
      else PErr (NoTag expected))"

text \<open>The matched bytes equal \<open>expected\<close>, a string: the \<open>unwrap\<close> of the source succeeds.\<close>

definition tag_str :: "bytes \<Rightarrow> bytes parser" where
  "tag_str expected input =
     (if starts_with input expected
      then (let x = take (length expected) input in
            if utf8_valid x then POk x (drop (length expected) input) else PPanic UnwrapPanic)
      else PErr (NoTagStr expected))"

definition tag_no_case :: "bytes \<Rightarrow> bytes parser" where
  "tag_no_case expected input =
     (let n = length expected in
      if n \<le> length input \<and> eq_ignore_ascii_case (take n input) expected
      then POk (take n input) (drop n input)
      else PErr (NoTagNoCase expected))"

definition take_bytes :: "nat \<Rightarrow> bytes parser" where
  "take_bytes n input =
     (if length input < n then PErr (ExpectedBytes n (length input))
      else POk (take n input) (drop n input))"

definition take_while :: "(u8 \<Rightarrow> bool) \<Rightarrow> bytes parser" where
  "take_while pred input =
     (let n = length (takeWhile pred input) in
      if n = 0 then PErr (NoneMatched input) else POk (take n input) (drop n input))"

text \<open>
  \<open>take_until\<close> compares \<open>i\<close> with \<open>input.len() - delimiter.len()\<close>. When the input is
  shorter than the delimiter this subtraction underflows: with overflow checks it panics;
  without them it wraps, no position matches, and \<open>input[i..]\<close> panics at
  \<open>i = input.len() + 1\<close>.
\<close>

function take_until_from :: "bytes \<Rightarrow> bytes \<Rightarrow> nat \<Rightarrow> bytes presult" where
  "take_until_from delimiter input i =
     (if i \<le> length input - length delimiter then
        if starts_with (drop i input) delimiter then POk (take i input) (drop i input)
        else take_until_from delimiter input (Suc i)
      else PErr (NoDelimiter delimiter input))"
  by pat_completeness auto
termination
  by (relation "measure (\<lambda>(d, input, i). Suc (length input - length d) - i)") auto

declare take_until_from.simps [simp del]

definition take_until :: "bytes \<Rightarrow> bytes parser" where
  "take_until delimiter input =
     (if length input < length delimiter then PPanic IndexPanic
      else take_until_from delimiter input 0)"

section \<open>Repetition and recognition\<close>

definition opt :: "'a parser \<Rightarrow> 'a option parser" where
  "opt p input =
     (case p input of
        POk a rest \<Rightarrow> POk (Some a) rest
      | PErr _ \<Rightarrow> POk None input
      | PPanic e \<Rightarrow> PPanic e
      | PLoop \<Rightarrow> PLoop)"

text \<open>
  The loop of \<open>many0\<close> and \<open>many1\<close>. A parser returns a suffix of its input; when it
  returns all of it the next iteration runs on the same slice, and so the loop never ends.
\<close>

function many_loop :: "'a parser \<Rightarrow> 'a list \<Rightarrow> bytes \<Rightarrow> 'a list presult" where
  "many_loop p matches rest =
     (case p rest of
        POk r new_rest \<Rightarrow>
          if length new_rest < length rest then many_loop p (matches @ [r]) new_rest else PLoop
      | PErr _ \<Rightarrow> POk matches rest
      | PPanic e \<Rightarrow> PPanic e
      | PLoop \<Rightarrow> PLoop)"
  by pat_completeness auto
termination
  by (relation "measure (\<lambda>(p, ms, rest). length rest)") auto

declare many_loop.simps [simp del]

definition many0 :: "'a parser \<Rightarrow> 'a list parser" where
  "many0 p input = many_loop p [] input"

definition many1 :: "'a parser \<Rightarrow> 'a list parser" where
  "many1 p input =
     pbind (many_loop p [] input) (\<lambda>matches rest.
       if 1 \<le> length matches then POk matches rest else PErr NoMatches)"

definition recognize :: "'a parser \<Rightarrow> bytes parser" where
  "recognize p input =
     pbind (p input) (\<lambda>_ rest. POk (take (length input - length rest) input) rest)"

section \<open>Numbers\<close>

text \<open>\<open>from_str\<close> is the \<open>FromStr\<close> instance of the result type.\<close>

definition digits :: "bytes parser" where
  "digits = recognize (take_while is_ascii_digit)"

definition sign :: "bytes parser" where
  "sign = recognize (or2 (byte 45) (byte 43))"

definition number :: "bytes parser" where
  "number = recognize (and2 (opt sign) digits)"

definition integer :: "(bytes \<Rightarrow> 'a option) \<Rightarrow> 'a parser" where
  "integer from_str input =
     pbind (number input) (\<lambda>bs rest.
       case from_utf8 bs of
         None \<Rightarrow> PPanic UnwrapPanic
       | Some string \<Rightarrow>
           (case from_str string of Some n \<Rightarrow> POk n rest | None \<Rightarrow> PErr (BadInteger string)))"

definition float :: "(bytes \<Rightarrow> 'a option) \<Rightarrow> 'a parser" where
  "float from_str input =
     (let inifinity = recognize (tag (as_bytes ''inifinity''));
          inf = recognize (tag (as_bytes ''inf''));
          nan = recognize (tag (as_bytes ''nan''));
          e = recognize (or2 (byte 101) (byte 69));
          dot = recognize (byte 46);
          exp = recognize (and3 e (opt sign) digits);
          number_digits = or3
            (recognize (and3 digits dot (opt digits)))
            (recognize (and3 (opt digits) dot digits))
            (recognize digits);
          number = recognize (and2 number_digits (opt exp));
          f = recognize (and2 (opt sign) (or4 inifinity inf nan number))
      in pbind (f input) (\<lambda>bs rest.
           case from_utf8 bs of
             None \<Rightarrow> PPanic UnwrapPanic
           | Some string \<Rightarrow>
               (case from_str string of Some n \<Rightarrow> POk n rest | None \<Rightarrow> PErr (BadFloat string))))"


section \<open>Length-encoded values of the RDB format\<close>

text \<open>
  The first two bits of the first byte select the encoding. An access beyond the slice
  panics, as do the source's assertions.
\<close>

definition byte_at :: "bytes \<Rightarrow> nat \<Rightarrow> u64" where
  "byte_at input i = ucast (input ! i)"

text \<open>A big-endian 32-bit value in the bytes 1 to 4.\<close>

definition be32_at_1 :: "bytes \<Rightarrow> u64" where
  "be32_at_1 input =
     push_bit 24 (byte_at input 1) OR push_bit 16 (byte_at input 2)
       OR push_bit 8 (byte_at input 3) OR byte_at input 4"

definition le_integer :: "u64 parser" where
  "le_integer input =
     (if input = [] then PPanic IndexPanic
      else
        let first = hd input;
            kind = drop_bit 6 (first AND 0xC0)
        in if kind = 0 then POk (ucast (first AND 0x3F)) (drop 1 input)
           else if kind = 1 then
             (if length input < 2 then PPanic AssertPanic
              else POk (push_bit 8 (ucast (first AND 0x3F)) OR byte_at input 1) (drop 2 input))
           else if kind = 2 then
             (if length input < 5 then PPanic AssertPanic
              else POk (be32_at_1 input) (drop 5 input))
           else PErr (LeIntegerPrefix first))"

text \<open>\<open>input[start..end].to_vec()\<close> after \<open>assert!(input.len() >= end)\<close>.\<close>

definition le_slice :: "nat \<Rightarrow> nat \<Rightarrow> bytes parser" where
  "le_slice start len input =
     (let e = start + len in
      if length input < e then PPanic AssertPanic
      else POk (take len (drop start input)) (drop e input))"

definition le_bytes :: "bytes parser" where
  "le_bytes input =
     (if input = [] then PPanic IndexPanic
      else
        let first = hd input;
            kind = drop_bit 6 (first AND 0xC0)
        in if kind = 0 then le_slice 1 (unat (first AND 0x3F)) input
           else if kind = 1 then
             (if length input < 2 then PPanic IndexPanic
              else le_slice 2 (unat (push_bit 8 (ucast (first AND 0x3F)) OR byte_at input 1)) input)
           else if kind = 2 then
             (if length input < 5 then PPanic AssertPanic
              else le_slice 5 (unat (be32_at_1 input)) input)
           else if first = 0xC0 then
             (if length input < 2 then PPanic AssertPanic
              else POk [input ! 1] (drop 2 input))
           else if first = 0xC1 then
             (if length input < 3 then PPanic AssertPanic
              else POk [input ! 2, input ! 1] (drop 3 input))
           else if first = 0xC2 then
             (if length input < 5 then PPanic AssertPanic
              else POk [input ! 4, input ! 3, input ! 2, input ! 1] (drop 5 input))
           else PErr (LeBytesPrefix first))"

text \<open>\<open>String::from_utf8(..).unwrap()\<close> on the bytes read.\<close>

definition utf8_unwrap :: "bytes presult \<Rightarrow> bytes presult" where
  "utf8_unwrap r =
     pbind r (\<lambda>b rest. case from_utf8 b of Some s \<Rightarrow> POk s rest | None \<Rightarrow> PPanic UnwrapPanic)"

definition le_string :: "bytes parser" where
  "le_string input =
     (if input = [] then PPanic IndexPanic
      else
        let first = hd input;
            kind = drop_bit 6 (first AND 0xC0)
        in if kind = 0 then utf8_unwrap (le_slice 1 (unat (first AND 0x3F)) input)
           else if kind = 1 then
             (if length input < 2 then PPanic IndexPanic
              else utf8_unwrap
                (le_slice 2 (unat (push_bit 8 (ucast (first AND 0x3F)) OR byte_at input 1)) input))
           else if kind = 2 then
             (if length input < 5 then PPanic AssertPanic
              else utf8_unwrap (le_slice 5 (unat (be32_at_1 input)) input))
           else if first = 0xC0 then
             (if length input < 2 then PPanic AssertPanic
              else utf8_unwrap (POk [input ! 1] (drop 2 input)))
           else if first = 0xC1 then
             (if length input < 3 then PPanic AssertPanic
              else utf8_unwrap (POk [input ! 2, input ! 1] (drop 3 input)))
           else if first = 0xC2 then
             (if length input < 5 then PPanic AssertPanic
              else utf8_unwrap (POk [input ! 4, input ! 3, input ! 2, input ! 1] (drop 5 input)))
           else PErr (LeStringPrefix first))"

section \<open>Parsers return a suffix of their input\<close>

text \<open>
  \<open>slices p\<close>: the rest is a suffix of the input. \<open>consumes p\<close>: a proper one. The rules in
  \<open>parser_intros\<close> derive both for the combinators.
\<close>

definition slices :: "'a parser \<Rightarrow> bool" where
  "slices p \<longleftrightarrow> (\<forall>input a rest. p input = POk a rest \<longrightarrow> suffix rest input)"

definition consumes :: "'a parser \<Rightarrow> bool" where
  "consumes p \<longleftrightarrow> (\<forall>input a rest. p input = POk a rest \<longrightarrow> strict_suffix rest input)"

named_theorems parser_intros "slices and consumes for the combinators"
named_theorems parse_simps "parsers on inputs of a known shape"

lemma slicesI: "(\<And>input a rest. p input = POk a rest \<Longrightarrow> suffix rest input) \<Longrightarrow> slices p"
  by (simp add: slices_def)

lemma slicesD: "slices p \<Longrightarrow> p input = POk a rest \<Longrightarrow> suffix rest input"
  by (simp add: slices_def)

lemma consumesI: "(\<And>input a rest. p input = POk a rest \<Longrightarrow> strict_suffix rest input) \<Longrightarrow> consumes p"
  by (simp add: consumes_def)

lemma consumesD: "consumes p \<Longrightarrow> p input = POk a rest \<Longrightarrow> strict_suffix rest input"
  by (simp add: consumes_def)

lemma consumes_slices: "consumes p \<Longrightarrow> slices p"
  by (auto simp: consumes_def slices_def suffix_order.less_imp_le)

lemma slices_length: "slices p \<Longrightarrow> p input = POk a rest \<Longrightarrow> length rest \<le> length input"
  by (auto dest: slicesD suffix_length_le)

lemma consumes_length: "consumes p \<Longrightarrow> p input = POk a rest \<Longrightarrow> length rest < length input"
  by (auto dest!: consumesD suffix_length_less)

lemma pbind_POk [simp]: "pbind r f = POk b rest' \<longleftrightarrow> (\<exists>a rest. r = POk a rest \<and> f a rest = POk b rest')"
  by (auto simp: pbind_def split: presult.splits)

lemma pbind_simps [simp]:
  "pbind (POk a rest) f = f a rest" "pbind (PErr e) f = PErr e"
  "pbind (PPanic p) f = PPanic p" "pbind PLoop f = PLoop"
  by (simp_all add: pbind_def)

lemma slices_and2 [parser_intros]: "slices p1 \<Longrightarrow> slices p2 \<Longrightarrow> slices (and2 p1 p2)"
  unfolding slices_def and2_def pbind_POk by (blast intro: suffix_order.trans)

lemma slices_and3 [parser_intros]: "slices p1 \<Longrightarrow> slices p2 \<Longrightarrow> slices p3 \<Longrightarrow> slices (and3 p1 p2 p3)"
  unfolding slices_def and3_def pbind_POk by (blast intro: suffix_order.trans)

lemma slices_and4 [parser_intros]:
  "slices p1 \<Longrightarrow> slices p2 \<Longrightarrow> slices p3 \<Longrightarrow> slices p4 \<Longrightarrow> slices (and4 p1 p2 p3 p4)"
  unfolding slices_def and4_def pbind_POk by (blast intro: suffix_order.trans)

lemma consumes_and2 [parser_intros]: "consumes p1 \<Longrightarrow> slices p2 \<Longrightarrow> consumes (and2 p1 p2)"
  unfolding slices_def consumes_def and2_def pbind_POk
  by (blast intro: suffix_order.le_less_trans)

lemma consumes_and3 [parser_intros]:
  "consumes p1 \<Longrightarrow> slices p2 \<Longrightarrow> slices p3 \<Longrightarrow> consumes (and3 p1 p2 p3)"
  unfolding slices_def consumes_def and3_def pbind_POk
  by (blast intro: suffix_order.le_less_trans suffix_order.trans)

lemma slices_or2 [parser_intros]: "slices p1 \<Longrightarrow> slices p2 \<Longrightarrow> slices (or2 p1 p2)"
  by (rule slicesI) (auto simp: or2_def dest: slicesD split: presult.splits)

lemma consumes_byte [parser_intros]: "consumes (byte b)"
  by (rule consumesI) (auto simp: byte_def strict_suffix_def suffix_def split: list.splits if_splits)

lemma slices_byte [parser_intros]: "slices (byte b)"
  by (rule consumes_slices) (rule consumes_byte)

lemma slices_tag [parser_intros]: "slices (tag t)"
  by (rule slicesI) (auto simp: tag_def suffix_drop split: if_splits)

lemma slices_take_bytes [parser_intros]: "slices (take_bytes n)"
  by (rule slicesI) (auto simp: take_bytes_def suffix_drop split: if_splits)

lemma slices_take_while [parser_intros]: "slices (take_while pred)"
  by (rule slicesI) (auto simp: take_while_def suffix_drop Let_def split: if_splits)

lemma slices_opt [parser_intros]: "slices p \<Longrightarrow> slices (opt p)"
  by (rule slicesI) (auto simp: opt_def dest: slicesD split: presult.splits)

lemma slices_recognize [parser_intros]: "slices p \<Longrightarrow> slices (recognize p)"
  by (rule slicesI) (auto simp: recognize_def dest: slicesD)

lemma slices_number [parser_intros]: "slices number"
  unfolding number_def digits_def sign_def by (intro parser_intros)

lemma slices_integer [parser_intros]: "slices (integer f)"
  by (rule slicesI) (auto simp: integer_def dest: slicesD [OF slices_number] split: option.splits)

lemma slices_take_until_from: "take_until_from d input i = POk a rest \<Longrightarrow> suffix rest input"
proof (induction d input i rule: take_until_from.induct)
  case (1 d input i)
  then show ?case
    by (subst (asm) (2) take_until_from.simps) (auto simp: suffix_drop split: if_splits)
qed

lemma slices_take_until [parser_intros]: "slices (take_until d)"
  by (rule slicesI) (auto simp: take_until_def dest: slices_take_until_from split: if_splits)

text \<open>\<open>ends p\<close>: the parser never loops.\<close>

definition ends :: "'a parser \<Rightarrow> bool" where
  "ends p \<longleftrightarrow> (\<forall>input. p input \<noteq> PLoop)"

lemma endsI: "(\<And>input. p input \<noteq> PLoop) \<Longrightarrow> ends p"
  by (simp add: ends_def)

lemma endsD [simp]: "ends p \<Longrightarrow> p input \<noteq> PLoop"
  by (simp add: ends_def)

lemma pbind_PLoop:
  "pbind r f = PLoop \<longleftrightarrow> r = PLoop \<or> (\<exists>a rest. r = POk a rest \<and> f a rest = PLoop)"
  by (auto simp: pbind_def split: presult.splits)

lemma ends_and2 [parser_intros]: "ends p1 \<Longrightarrow> ends p2 \<Longrightarrow> ends (and2 p1 p2)"
  by (rule endsI) (simp add: and2_def pbind_PLoop)

lemma ends_and3 [parser_intros]: "ends p1 \<Longrightarrow> ends p2 \<Longrightarrow> ends p3 \<Longrightarrow> ends (and3 p1 p2 p3)"
  by (rule endsI) (simp add: and3_def pbind_PLoop)

lemma ends_or2 [parser_intros]: "ends p1 \<Longrightarrow> ends p2 \<Longrightarrow> ends (or2 p1 p2)"
  by (rule endsI) (auto simp: or2_def split: presult.splits)

lemma ends_byte [parser_intros]: "ends (byte b)"
  by (rule endsI) (simp add: byte_def split: list.splits)

lemma ends_tag [parser_intros]: "ends (tag t)"
  by (rule endsI) (simp add: tag_def)

lemma ends_take_bytes [parser_intros]: "ends (take_bytes n)"
  by (rule endsI) (simp add: take_bytes_def)

lemma ends_take_while [parser_intros]: "ends (take_while pred)"
  by (rule endsI) (simp add: take_while_def Let_def)

lemma ends_opt [parser_intros]: "ends p \<Longrightarrow> ends (opt p)"
  by (rule endsI) (auto simp: opt_def split: presult.splits)

lemma ends_recognize [parser_intros]: "ends p \<Longrightarrow> ends (recognize p)"
  by (rule endsI) (simp add: recognize_def pbind_PLoop)

lemma ends_number [parser_intros]: "ends number"
  unfolding number_def digits_def sign_def by (intro parser_intros)

lemma ends_integer [parser_intros]: "ends (integer f)"
  by (rule endsI) (auto simp: integer_def pbind_PLoop ends_number split: option.splits)

lemma take_until_from_ends: "take_until_from d input i \<noteq> PLoop"
proof (induction d input i rule: take_until_from.induct)
  case (1 d input i)
  then show ?case
    by (subst take_until_from.simps) simp
qed

lemma ends_take_until [parser_intros]: "ends (take_until d)"
  by (rule endsI) (simp add: take_until_def take_until_from_ends)

section \<open>Consuming parsers can be repeated\<close>

locale consuming_parser =
  fixes p :: "'a parser"
  assumes consuming: "consumes p"
begin

lemma many_loop_step:
  "many_loop p ms rest =
     (case p rest of
        POk r new_rest \<Rightarrow> many_loop p (ms @ [r]) new_rest
      | PErr _ \<Rightarrow> POk ms rest
      | PPanic e \<Rightarrow> PPanic e
      | PLoop \<Rightarrow> PLoop)"
  by (subst many_loop.simps)
    (auto dest: consumes_length [OF consuming] split: presult.splits)

lemma many_loop_ends:
  assumes "\<And>input. p input \<noteq> PLoop"
  shows "many_loop p ms rest \<noteq> PLoop"
proof (induction "length rest" arbitrary: ms rest rule: less_induct)
  case less
  then show ?case
    using assms [of rest] consumes_length [OF consuming, of rest]
    by (subst many_loop_step) (auto split: presult.splits)
qed

lemma many0_ends: "(\<And>input. p input \<noteq> PLoop) \<Longrightarrow> many0 p input \<noteq> PLoop"
  by (simp add: many0_def many_loop_ends)

lemma many_loop_suffix: "many_loop p ms rest = POk rs rest' \<Longrightarrow> suffix rest' rest"
proof (induction "length rest" arbitrary: ms rest rule: less_induct)
  case less
  show ?case
  proof (cases "p rest")
    case (POk r new_rest)
    with less.prems have "many_loop p (ms @ [r]) new_rest = POk rs rest'"
      by (simp add: many_loop_step [of ms rest])
    then have "suffix rest' new_rest"
      by (rule less.hyps [OF consumes_length [OF consuming POk]])
    then show ?thesis
      using consumesD [OF consuming POk] by (meson suffix_order.le_less_trans suffix_order.less_imp_le)
  qed (use less.prems in \<open>simp_all add: many_loop_step [of ms rest]\<close>)
qed

lemma many0_slices: "slices (many0 p)"
  by (rule slicesI) (auto simp: many0_def dest: many_loop_suffix)

end

section \<open>Encoders and the parsers that read them back\<close>

text \<open>
  A \<open>codec\<close> is an encoder and a parser such that the parser reads exactly the encoding
  off the front of any input (\<open>wrap\<close> is the form in which the parser returns a value).
  Encodings of a list of values, one after the other, are then read back by \<open>many0\<close>, and
  the encoder is injective.
\<close>

locale codec =
  fixes enc :: "'a \<Rightarrow> bytes"
    and dec :: "'b parser"
    and wrap :: "'a \<Rightarrow> 'b"
    and ok :: "'a \<Rightarrow> bool"
  assumes dec_enc: "ok x \<Longrightarrow> dec (enc x @ rest) = POk (wrap x) rest"
    and enc_nonempty: "ok x \<Longrightarrow> enc x \<noteq> []"
    and wrap_inj: "wrap x = wrap y \<Longrightarrow> x = y"
begin

lemma dec_enc_exact: "ok x \<Longrightarrow> dec (enc x) = POk (wrap x) []"
  using dec_enc [of x "[]"] by simp

lemma enc_prefix_free: "ok x \<Longrightarrow> ok y \<Longrightarrow> enc x @ r = enc y @ t \<Longrightarrow> x = y \<and> r = t"
  by (metis dec_enc presult.inject(1) wrap_inj)

lemma enc_inj: "inj_on enc {x. ok x}"
proof (rule inj_onI)
  fix x y
  assume "x \<in> {x. ok x}" "y \<in> {x. ok x}" "enc x = enc y"
  then show "x = y"
    using enc_prefix_free [of x y "[]" "[]"] by simp
qed

lemma many_loop_enc:
  assumes "list_all ok xs" and "dec rest = PErr e"
  shows "many_loop dec ms (concat (map enc xs) @ rest) = POk (ms @ map wrap xs) rest"
  using assms(1)
proof (induction xs arbitrary: ms)
  case Nil
  with assms(2) show ?case
    by (subst many_loop.simps) simp
next
  case (Cons x xs)
  then have "enc x \<noteq> []"
    "dec (enc x @ concat (map enc xs) @ rest) = POk (wrap x) (concat (map enc xs) @ rest)"
    by (simp_all add: dec_enc enc_nonempty)
  with Cons show ?case
    by (subst many_loop.simps) simp
qed

lemma many0_enc:
  "list_all ok xs \<Longrightarrow> dec rest = PErr e \<Longrightarrow>
   many0 dec (concat (map enc xs) @ rest) = POk (map wrap xs) rest"
  by (simp add: many0_def many_loop_enc)

end

section \<open>Parsers on inputs of a known shape\<close>

lemma starts_with_append [simp]: "starts_with (p @ r) p"
  by (simp add: starts_with_def)

lemma starts_with_iff: "starts_with input p \<longleftrightarrow> (\<exists>r. input = p @ r)"
  by (metis append_eq_conv_conj append_take_drop_id starts_with_def)

lemma starts_with_Nil [simp]: "starts_with input []"
  by (simp add: starts_with_def)

lemma starts_with_Cons [simp]:
  "starts_with (x # input) (y # p) \<longleftrightarrow> x = y \<and> starts_with input p" "\<not> starts_with [] (y # p)"
  by (auto simp: starts_with_def)

lemma byte_Cons [parse_simps]: "byte b (x # r) = (if x = b then POk b r else PErr (NoByte b (x # r)))"
  by (simp add: byte_def)

lemma tag_append [parse_simps]: "tag t (t @ r) = POk t r"
  by (simp add: tag_def)

lemma tag_Cons [parse_simps]:
  "tag [a, b] (a # b # r) = POk [a, b] r"
  by (simp add: tag_def)

lemma take_bytes_append [parse_simps]: "take_bytes (length s) (s @ r) = POk s r"
  by (simp add: take_bytes_def)

lemma takeWhile_stop: "list_all P s \<Longrightarrow> (case r of [] \<Rightarrow> True | b # _ \<Rightarrow> \<not> P b) \<Longrightarrow> takeWhile P (s @ r) = s"
  by (induction s) (auto split: list.splits)

definition no_digit_next :: "bytes \<Rightarrow> bool" where
  "no_digit_next r \<longleftrightarrow> (case r of [] \<Rightarrow> True | b # _ \<Rightarrow> \<not> is_ascii_digit b)"

lemma digits_append:
  "list_all is_ascii_digit s \<Longrightarrow> s \<noteq> [] \<Longrightarrow> no_digit_next r \<Longrightarrow> digits (s @ r) = POk s r"
  by (simp add: digits_def recognize_def take_while_def takeWhile_stop no_digit_next_def Let_def)

lemma number_digits:
  assumes "list_all is_ascii_digit s" and "s \<noteq> []" and "no_digit_next r"
  shows "number (s @ r) = POk s r"
proof -
  obtain b t where s: "s = b # t" and b: "b \<noteq> 45" "b \<noteq> 43"
    using assms(1,2) by (cases s) (auto dest: digit_not_sign)
  then have "opt sign (s @ r) = POk None (s @ r)"
    by (simp add: opt_def sign_def recognize_def or2_def byte_def)
  with assms show ?thesis
    by (simp add: number_def recognize_def and2_def digits_append)
qed

lemma number_minus:
  assumes "list_all is_ascii_digit s" and "s \<noteq> []" and "no_digit_next r"
  shows "number (45 # s @ r) = POk (45 # s) r"
proof -
  have "opt sign (45 # s @ r) = POk (Some [45]) (s @ r)"
    by (simp add: opt_def sign_def recognize_def or2_def byte_def)
  with assms show ?thesis
    by (simp add: number_def recognize_def and2_def digits_append)
qed

lemma integer_nat_to_string [parse_simps]:
  assumes "no_digit_next r"
  shows "integer from_str (nat_to_string n @ r) =
    (case from_str (nat_to_string n) of Some v \<Rightarrow> POk v r | None \<Rightarrow> PErr (BadInteger (nat_to_string n)))"
  using assms by (simp add: integer_def number_digits from_utf8_def)

lemma integer_int_to_string:
  assumes "no_digit_next r"
  shows "integer from_str (int_to_string i @ r) =
    (case from_str (int_to_string i) of Some v \<Rightarrow> POk v r | None \<Rightarrow> PErr (BadInteger (int_to_string i)))"
proof -
  have "number (int_to_string i @ r) = POk (int_to_string i) r"
    using assms by (simp add: int_to_string_def number_digits number_minus)
  then show ?thesis
    by (simp add: integer_def from_utf8_def)
qed

lemma integer_i64_to_string [parse_simps]:
  "no_digit_next r \<Longrightarrow> integer i64_from_str (i64_to_string i @ r) = POk i r"
  using i64_from_to_string [of i] by (simp add: i64_to_string_def integer_int_to_string)

fun crlf_free :: "bytes \<Rightarrow> bool" where
  "crlf_free (b # c # r) = (\<not> (b = 13 \<and> c = 10) \<and> crlf_free (c # r))"
| "crlf_free _ = True"

lemma take_until_from_crlf:
  "crlf_free s \<Longrightarrow>
   take_until_from [13, 10] (pre @ s @ 13 # 10 # r) (length pre) = POk (pre @ s) (13 # 10 # r)"
proof (induction s arbitrary: pre)
  case Nil
  then show ?case
    by (subst take_until_from.simps) simp
next
  case (Cons b s)
  have "crlf_free s" and no: "\<not> starts_with (b # s @ 13 # 10 # r) [13, 10]"
    using Cons.prems by (cases s; simp)+
  with Cons.IH [of "pre @ [b]"] show ?case
    by (subst take_until_from.simps) simp
qed

lemma take_until_crlf [parse_simps]:
  "crlf_free s \<Longrightarrow> take_until [13, 10] (s @ 13 # 10 # r) = POk s (13 # 10 # r)"
  using take_until_from_crlf [of s "[]" r] by (simp add: take_until_def)

end
