(* ===== verification/Resp.thy ===== *)
theory Resp
  imports Parser
begin

text \<open>
  \<open>resp.rs\<close>: RESP values, their encoding and its length, and the recursive-descent parser.
\<close>

abbreviation crlf :: bytes where
  "crlf \<equiv> [13, 10]"

section \<open>Values\<close>

datatype resp =
    NullBulkString
  | NullArray
  | SimpleString bytes
  | BulkString bytes
  | SimpleError bytes
  | Integer i64
  | File bytes
  | Array "resp list"

text \<open>The length of a number's decimal form, \<open>n.to_string().as_bytes().len()\<close>.\<close>

definition dec_len :: "nat \<Rightarrow> nat" where
  "dec_len n = length (nat_to_string n)"

fun resp_len :: "resp \<Rightarrow> nat" where
  "resp_len NullBulkString = 5"
| "resp_len NullArray = 5"
| "resp_len (File f) = dec_len (length f) + length f + 3"
| "resp_len (Integer i) = 3 + length (i64_to_string i)"
| "resp_len (SimpleString s) = 3 + length s"
| "resp_len (BulkString s) = 5 + dec_len (length s) + length s"
| "resp_len (SimpleError e) = 3 + length e"
| "resp_len (Array els) = dec_len (length els) + sum_list (map resp_len els) + 3"

fun get_str :: "resp \<Rightarrow> bytes option" where
  "get_str (SimpleString s) = from_utf8 s"
| "get_str (BulkString s) = from_utf8 s"
| "get_str (SimpleError e) = from_utf8 e"
| "get_str _ = None"

fun get_bytes :: "resp \<Rightarrow> bytes option" where
  "get_bytes (File f) = Some f"
| "get_bytes (SimpleString s) = Some s"
| "get_bytes (BulkString s) = Some s"
| "get_bytes (SimpleError e) = Some e"
| "get_bytes _ = None"

text \<open>The constructors from string literals.\<close>

definition simple_string :: "string \<Rightarrow> resp" where
  "simple_string s = SimpleString (as_bytes s)"

definition bulk_string :: "string \<Rightarrow> resp" where
  "bulk_string s = BulkString (as_bytes s)"

definition simple_error :: "string \<Rightarrow> resp" where
  "simple_error e = SimpleError (as_bytes e)"

section \<open>Encoding\<close>

fun encode_resp :: "resp \<Rightarrow> bytes" where
  "encode_resp NullBulkString = as_bytes ''$-1'' @ crlf"
| "encode_resp NullArray = as_bytes ''*-1'' @ crlf"
| "encode_resp (SimpleString s) = as_bytes ''+'' @ s @ crlf"
| "encode_resp (BulkString s) = as_bytes ''$'' @ nat_to_string (length s) @ crlf @ s @ crlf"
| "encode_resp (SimpleError e) = as_bytes ''-'' @ e @ crlf"
| "encode_resp (Integer i) = as_bytes '':'' @ i64_to_string i @ crlf"
| "encode_resp (Array els) =
     as_bytes ''*'' @ nat_to_string (length els) @ crlf @ concat (map encode_resp els)"
| "encode_resp (File f) = as_bytes ''$'' @ nat_to_string (length f) @ crlf @ f"

lemma length_concat_map: "length (concat (map f xs)) = sum_list (map (\<lambda>x. length (f x)) xs)"
  by (induction xs) auto

section \<open>Parsing\<close>

definition parse_simple_string :: "resp option parser" where
  "parse_simple_string input =
     pbind (and3 (byte 43) (take_until crlf) (tag crlf) input) (\<lambda>(_, s, _) rest.
       POk (Some (SimpleString s)) rest)"

definition parse_simple_error :: "resp option parser" where
  "parse_simple_error input =
     pbind (and3 (byte 45) (take_until crlf) (tag crlf) input) (\<lambda>(_, e, _) rest.
       POk (Some (SimpleError e)) rest)"

definition parse_integer :: "resp option parser" where
  "parse_integer input =
     pbind (and3 (byte 58) (integer i64_from_str) (tag crlf) input) (\<lambda>(_, i, _) rest.
       POk (Some (Integer i)) rest)"

definition parse_bulk_string :: "resp option parser" where
  "parse_bulk_string input =
     pbind (and2 (byte 36) (integer usize_from_str) input) (\<lambda>(_, l) rest.
     pbind (and3 (tag crlf) (take_bytes l) (tag crlf) rest) (\<lambda>(_, s, _) rest.
       POk (Some (BulkString s)) rest))"

definition parse_rdb_file :: "resp option parser" where
  "parse_rdb_file input =
     pbind (and2 (byte 36) (integer usize_from_str) input) (\<lambda>(_, l) rest.
     pbind (and2 (tag crlf) (take_bytes l) rest) (\<lambda>(_, s) rest.
       POk (Some (File s)) rest))"

text \<open>The head of \<open>parse_array\<close>: \<open>*\<close>, the number of elements, CRLF.\<close>

definition parse_array_head :: "nat parser" where
  "parse_array_head input =
     pbind (and3 (byte 42) (integer usize_from_str) (tag crlf) input) (\<lambda>(_, l, _) rest. POk l rest)"

text \<open>
  \<open>parse_single_resp\<close> and \<open>parse_array\<close> call each other; \<open>parse_elements l n\<close> is the
  loop of \<open>parse_array\<close> with \<open>n\<close> of the \<open>l\<close> elements left.
\<close>

function parse_single_resp :: "resp option parser"
  and parse_elements :: "nat \<Rightarrow> nat \<Rightarrow> resp list parser" where
  "parse_single_resp input =
     (if input = [] then POk None input
      else if starts_with input (as_bytes ''$-1'' @ crlf) then
        POk (Some NullBulkString) (drop 5 input)
      else if starts_with input (as_bytes ''*-1'' @ crlf) then
        POk (Some NullArray) (drop 5 input)
      else if hd input = 36 then or2 parse_bulk_string parse_rdb_file input
      else if hd input = 43 then parse_simple_string input
      else if hd input = 45 then parse_simple_error input
      else if hd input = 42 then
        (case parse_array_head input of
           POk l rest \<Rightarrow>
             pbind (parse_elements l l rest) (\<lambda>els rest. POk (Some (Array els)) rest)
         | PErr e \<Rightarrow> PErr e
         | PPanic p \<Rightarrow> PPanic p
         | PLoop \<Rightarrow> PLoop)
      else if hd input = 58 then parse_integer input
      else PErr (UnknownFirstByte (hd input) input))"
| "parse_elements l n input =
     (case n of
        0 \<Rightarrow> POk [] input
      | Suc m \<Rightarrow>
          (case parse_single_resp input of
             POk (Some r) rest \<Rightarrow> pbind (parse_elements l m rest) (\<lambda>els rest. POk (r # els) rest)
           | POk None _ \<Rightarrow> PErr (ArrayTooShort l)
           | PErr e \<Rightarrow> PErr e
           | PPanic p \<Rightarrow> PPanic p
           | PLoop \<Rightarrow> PLoop))"
  by pat_completeness auto

lemma consumes_parse_array_head: "consumes parse_array_head"
proof -
  have "consumes (and3 (byte 42) (integer usize_from_str) (tag crlf))"
    by (intro parser_intros)
  then show ?thesis
    by (auto simp: consumes_def parse_array_head_def split: prod.splits)
qed

lemma consumes_scalar_parsers:
  "consumes parse_simple_string" "consumes parse_simple_error" "consumes parse_integer"
  "consumes parse_bulk_string" "consumes parse_rdb_file"
proof -
  have "consumes (and3 (byte b) (take_until crlf) (tag crlf))"
    and "consumes (and3 (byte b) (integer i64_from_str) (tag crlf))"
    and "consumes (and2 (byte b) (integer usize_from_str))"
    and "slices (and3 (tag crlf) (take_bytes l) (tag crlf))"
    and "slices (and2 (tag crlf) (take_bytes l))" for b l
    by (intro parser_intros)+
  then show "consumes parse_simple_string" "consumes parse_simple_error" "consumes parse_integer"
    "consumes parse_bulk_string" "consumes parse_rdb_file"
    by (auto simp: slices_def consumes_def parse_simple_string_def parse_simple_error_def
        parse_integer_def parse_bulk_string_def parse_rdb_file_def split: prod.splits
        dest!: spec intro: suffix_order.le_less_trans)
qed

lemma consumes_bulk_or_file: "consumes (or2 parse_bulk_string parse_rdb_file)"
  using consumes_scalar_parsers(4,5)
  by (auto simp: consumes_def or2_def split: presult.splits)

lemma starts_with_drop: "starts_with input p \<Longrightarrow> p \<noteq> [] \<Longrightarrow> strict_suffix (drop (length p) input) input"
  by (auto simp: starts_with_iff strict_suffix_def suffix_def)

lemma parse_suffix_dom:
  "parse_single_resp_parse_elements_dom (Inl input) \<Longrightarrow>
     parse_single_resp input = POk (Some r) rest \<Longrightarrow> strict_suffix rest input"
  "parse_single_resp_parse_elements_dom (Inr (l, n, input)) \<Longrightarrow>
     parse_elements l n input = POk els rest \<Longrightarrow> suffix rest input"
proof (induction arbitrary: r rest and els rest rule: parse_single_resp_parse_elements.pinduct)
  case (1 input)
  have drop5: "strict_suffix (drop 5 input) input"
    if "starts_with input t" "length t = 5" for t
    using starts_with_drop [OF that(1)] that(2) by force
  note tails = consumesD [OF consumes_bulk_or_file] consumesD [OF consumes_parse_array_head]
    consumesD [OF consumes_scalar_parsers(1)] consumesD [OF consumes_scalar_parsers(2)]
    consumesD [OF consumes_scalar_parsers(3)]
  show ?case
    using "1.prems" "1.IH"
    by (auto simp: parse_single_resp.psimps [OF "1.hyps"] split: if_splits presult.splits
        intro: drop5 tails) (blast intro: suffix_order.le_less_trans tails)
next
  case (2 l n input)
  show ?case
    using "2.prems" "2.IH"
    by (auto simp: parse_elements.psimps [OF "2.hyps"]
        split: nat.splits presult.splits option.splits)
      (meson suffix_order.trans suffix_order.less_imp_le)
qed

lemma parse_total: "All parse_single_resp_parse_elements_dom"
  by (rule "parse_single_resp_parse_elements.termination"
      [of "measure (\<lambda>x. case x of Inl input \<Rightarrow> 2 * length input
                          | Inr (l, n, input) \<Rightarrow> 2 * length input + 1)"])
    (auto dest!: consumes_length [OF consumes_parse_array_head] parse_suffix_dom(1) suffix_length_less)

termination parse_single_resp
  by (rule parse_total)

declare parse_single_resp.simps [simp del] parse_elements.simps [simp del]

lemma parse_elements_simps [simp]:
  "parse_elements l 0 input = POk [] input"
  "parse_elements l (Suc m) input =
     (case parse_single_resp input of
        POk (Some r) rest \<Rightarrow> pbind (parse_elements l m rest) (\<lambda>els rest. POk (r # els) rest)
      | POk None _ \<Rightarrow> PErr (ArrayTooShort l)
      | PErr e \<Rightarrow> PErr e
      | PPanic p \<Rightarrow> PPanic p
      | PLoop \<Rightarrow> PLoop)"
  by (subst parse_elements.simps, simp)+

lemma parse_single_resp_consumes:
  "parse_single_resp input = POk (Some r) rest \<Longrightarrow> strict_suffix rest input"
  by (rule parse_suffix_dom) (rule parse_total [rule_format])

text \<open>
  \<open>parse_resp\<close> parses values until the input is used up; a parse error is a \<open>panic!\<close>.
\<close>

function parse_resp_loop :: "resp list \<Rightarrow> resp list parser" where
  "parse_resp_loop acc next_input =
     (case parse_single_resp next_input of
        POk (Some new_resp) new_input \<Rightarrow> parse_resp_loop (acc @ [new_resp]) new_input
      | POk None new_input \<Rightarrow> POk acc new_input
      | PErr _ \<Rightarrow> PPanic ExplicitPanic
      | PPanic p \<Rightarrow> PPanic p
      | PLoop \<Rightarrow> PLoop)"
  by pat_completeness auto
termination
  by (relation "measure (\<lambda>(acc, input). length input)")
    (auto dest: parse_single_resp_consumes suffix_length_less)

declare parse_resp_loop.simps [simp del]

definition parse_resp :: "resp list parser" where
  "parse_resp input = parse_resp_loop [] input"


section \<open>Lengths\<close>

lemma length_encode_resp: "length (encode_resp r) = resp_len r"
proof (induction r)
  case (Array els)
  then show ?case
    by (simp add: dec_len_def length_concat_map cong: map_cong)
qed (simp_all add: dec_len_def)

section \<open>Round trip\<close>

text \<open>
  The values that survive encoding and parsing: simple strings and errors without CRLF,
  lengths that fit \<open>usize\<close>. A \<open>File\<close> has no terminator of its own; it is treated apart.
\<close>

fun resp_ok :: "resp \<Rightarrow> bool" where
  "resp_ok (SimpleString s) = crlf_free s"
| "resp_ok (SimpleError e) = crlf_free e"
| "resp_ok (BulkString s) = (length s < 2 ^ 64)"
| "resp_ok (Array els) = (length els < 2 ^ 64 \<and> list_all resp_ok els)"
| "resp_ok (File _) = False"
| "resp_ok _ = True"

lemma no_digit_next_simps [simp]:
  "no_digit_next (13 # r)" "no_digit_next []"
  by (simp_all add: no_digit_next_def is_ascii_digit_def)

lemma nat_to_string_not_minus [simp]: "\<not> starts_with (nat_to_string n @ r) (45 # p)"
proof -
  obtain b t where "nat_to_string n = b # t" "is_ascii_digit b"
    by (rule nat_to_string_Cons)
  then show ?thesis
    by (auto dest: digit_not_sign)
qed

lemmas head_bytes = as_bytes_Cons starts_with_Cons

lemma usize_from_nat_to_string [simp]: "n < 2 ^ 64 \<Longrightarrow> usize_from_str (nat_to_string n) = Some n"
  by (simp add: usize_from_str_def)

lemma parse_dollar: "parse_single_resp (36 # nat_to_string n @ rest) =
    or2 parse_bulk_string parse_rdb_file (36 # nat_to_string n @ rest)"
  by (subst parse_single_resp.simps) (simp add: byte_simps)

lemma parse_array_head_encoded:
  "n < 2 ^ 64 \<Longrightarrow> parse_array_head (42 # nat_to_string n @ 13 # 10 # rest) = POk n rest"
  by (simp add: parse_array_head_def and3_def parse_simps)

lemma parse_array_encoded:
  assumes "n < 2 ^ 64"
  shows "parse_single_resp (42 # nat_to_string n @ 13 # 10 # rest) =
    pbind (parse_elements n n rest) (\<lambda>els rest. POk (Some (Array els)) rest)"
  using assms by (subst parse_single_resp.simps) (simp add: byte_simps parse_array_head_encoded)

lemma parse_elements_encoded:
  assumes "\<And>el rest. el \<in> set els \<Longrightarrow> parse_single_resp (encode_resp el @ rest) = POk (Some el) rest"
  shows "parse_elements l (length els) (concat (map encode_resp els) @ rest) = POk els rest"
  using assms by (induction els) simp_all

lemma parse_encoded:
  "resp_ok r \<Longrightarrow> parse_single_resp (encode_resp r @ rest) = POk (Some r) rest"
proof (induction r arbitrary: rest)
  case (BulkString s)
  then show ?case
    by (simp add: byte_simps parse_dollar or2_def parse_bulk_string_def and2_def and3_def parse_simps)
next
  case (Array els)
  then have "parse_elements (length els) (length els) (concat (map encode_resp els) @ rest) = POk els rest"
    by (intro parse_elements_encoded) (simp add: list_all_iff)
  with Array.prems show ?case
    by (simp add: byte_simps parse_array_encoded)
next
  case (Integer i)
  show ?case
    by (subst parse_single_resp.simps)
      (simp add: byte_simps parse_integer_def and3_def parse_simps)
qed (simp_all add: byte_simps parse_single_resp.simps parse_simple_string_def
       parse_simple_error_def and3_def parse_simps)

lemma encode_resp_nonempty [simp]: "resp_ok r \<Longrightarrow> encode_resp r \<noteq> []"
  by (cases r) (simp_all add: byte_simps)

interpretation resp: codec encode_resp parse_single_resp Some resp_ok
  by unfold_locales (simp_all add: parse_encoded)

text \<open>\<open>parse_resp\<close> reads back a pipelined sequence of values.\<close>

lemma parse_resp_loop_encoded:
  "list_all resp_ok rs \<Longrightarrow> parse_resp_loop acc (concat (map encode_resp rs)) = POk (acc @ rs) []"
proof (induction rs arbitrary: acc)
  case Nil
  show ?case
    by (simp add: parse_resp_loop.simps parse_single_resp.simps)
next
  case (Cons r rs)
  then show ?case
    by (subst parse_resp_loop.simps) (simp add: parse_encoded)
qed

section \<open>Parsing always returns\<close>

lemma scalar_parsers_end:
  "ends parse_simple_string" "ends parse_simple_error" "ends parse_integer"
  "ends parse_bulk_string" "ends parse_rdb_file" "ends parse_array_head"
  by (rule endsI;
      simp add: parse_simple_string_def parse_simple_error_def parse_integer_def
        parse_bulk_string_def parse_rdb_file_def parse_array_head_def pbind_PLoop parser_intros
        split: prod.splits)+

lemma parse_single_resp_ends:
  "parse_single_resp input \<noteq> PLoop" "parse_elements l n input \<noteq> PLoop"
proof (induction input and l n input rule: parse_single_resp_parse_elements.induct)
  case (1 input)
  then show ?case
    using scalar_parsers_end ends_or2 [OF scalar_parsers_end(4,5)]
    by (subst parse_single_resp.simps) (auto simp: pbind_PLoop split: presult.splits)
next
  case (2 l n input)
  then show ?case
    by (cases n) (auto simp: pbind_PLoop split: presult.splits option.splits)
qed

lemma parse_resp_loop_ends: "parse_resp_loop acc input \<noteq> PLoop"
proof (induction acc input rule: parse_resp_loop.induct)
  case (1 acc input)
  then show ?case
    using parse_single_resp_ends(1) [of input]
    by (subst parse_resp_loop.simps) (auto split: presult.splits option.splits)
qed

section \<open>Properties\<close>

lemma parse_single_resp_None: "parse_single_resp input = POk None rest \<Longrightarrow> input = [] \<and> rest = []"
  by (subst (asm) parse_single_resp.simps)
    (auto simp: or2_def parse_bulk_string_def parse_rdb_file_def parse_simple_string_def
      parse_simple_error_def parse_integer_def split: if_splits presult.splits prod.splits)

lemma parse_resp_loop_result:
  "(\<exists>rs. parse_resp_loop acc input = POk rs []) \<or> (\<exists>p. parse_resp_loop acc input = PPanic p)"
proof (induction acc input rule: parse_resp_loop.induct)
  case (1 acc input)
  then show ?case
    using parse_single_resp_ends(1) [of input] parse_single_resp_None [of input]
    by (subst (1 2) parse_resp_loop.simps) (auto split: presult.splits option.splits)
qed

text \<open>
  C31. Any sequence of RESP values (without a \<open>File\<close>, simple strings and errors free of CRLF), encoded one
  after the other, is read back by \<open>parse_resp\<close> as exactly that sequence, with no bytes left.
\<close>

theorem resp_pipeline_roundtrip:
  assumes "list_all resp_ok rs"
  shows "parse_resp (concat (map encode_resp rs)) = POk rs []"
  using parse_resp_loop_encoded [OF assms, of "[]"] by (simp add: parse_resp_def)

lemma resp_pipeline_roundtrip_witness:
  "parse_resp (concat (map encode_resp
     [Array [bulk_string ''ECHO'', BulkString [13, 10]], Integer (- 7), NullArray, simple_string ''OK''])) =
   POk [Array [bulk_string ''ECHO'', BulkString [13, 10]], Integer (- 7), NullArray, simple_string ''OK''] []"
  by (rule resp_pipeline_roundtrip) (simp add: bulk_string_def simple_string_def byte_simps)

text \<open>
  Framing: an encoded value is never confused with another one, whatever bytes follow it on
  the connection.
\<close>

theorem resp_prefix_free:
  assumes "resp_ok r" and "resp_ok s" and "encode_resp r @ t = encode_resp s @ u"
  shows "r = s \<and> t = u"
  using assms by (rule resp.enc_prefix_free)

lemma resp_prefix_free_witness:
  "Integer 1 = Integer 1 \<and> [0] = [0 :: u8]"
  by (rule resp_prefix_free) simp_all

text \<open>
  C32. \<open>Resp::len\<close>, the number both replication offsets count with, is the length of the encoding
  for every value, nested arrays included.
\<close>

theorem resp_len_is_encoded_length: "resp_len r = length (encode_resp r)"
  by (simp add: length_encode_resp)

text \<open>
  C33. \<open>parse_resp\<close> terminates on every input: it reads the whole of it, or it panics. It never
  stops with bytes left and never returns an error.
\<close>

theorem parse_resp_returns:
  "(\<exists>rs. parse_resp input = POk rs []) \<or> (\<exists>p. parse_resp input = PPanic p)"
  unfolding parse_resp_def by (rule parse_resp_loop_result)

text \<open>
  The RDB file of a full resynchronisation has no terminator: it is read back as a \<open>File\<close> when
  the next bytes are not CRLF, and as a bulk string that swallows them when they are.
\<close>

theorem file_parsed:
  assumes "length f < 2 ^ 64"
  shows "parse_single_resp (encode_resp (File f) @ rest) =
    (if starts_with rest crlf then POk (Some (BulkString f)) (drop 2 rest)
     else POk (Some (File f)) rest)"
proof -
  have "tag crlf rest = (if starts_with rest crlf then POk crlf (drop 2 rest) else PErr (NoTag crlf))"
    by (auto simp: tag_def starts_with_iff numeral_2_eq_2)
  with assms show ?thesis
    by (simp add: byte_simps parse_dollar or2_def parse_bulk_string_def parse_rdb_file_def and2_def and3_def parse_simps)
qed

lemma file_parsed_witness:
  "parse_single_resp (encode_resp (File [1, 2]) @ crlf) = POk (Some (BulkString [1, 2])) []
   \<and> parse_single_resp (encode_resp (File [1, 2]) @ [42]) = POk (Some (File [1, 2])) [42]"
  using file_parsed [of "[1, 2]" crlf] file_parsed [of "[1, 2]" "[42]"] by simp

end
