(* ===== verification/Collections.thy ===== *)
theory Collections
  imports Prelude
begin

text \<open>
  The containers of the Rust standard library that the sources use. A \<open>HashMap\<close> is a
  list of entries with distinct keys (its iteration order is unspecified in Rust: code
  whose result depends on it takes the order as an argument); a \<open>HashSet\<close> a list of
  distinct elements; a \<open>BTreeMap\<close> and a \<open>BTreeSet\<close> are kept in ascending order of key.
  The interface \<open>dictionary\<close> states what a map promises; both maps implement it.
\<close>

named_theorems map_simps "lookups after updates"

section \<open>The interface of a map\<close>

locale dictionary =
  fixes get :: "'m \<Rightarrow> 'k \<Rightarrow> 'v option"
    and ins :: "'k \<Rightarrow> 'v \<Rightarrow> 'm \<Rightarrow> 'm"
    and del :: "'k \<Rightarrow> 'm \<Rightarrow> 'm"
    and empty :: 'm
    and wf :: "'m \<Rightarrow> bool"
  assumes get_empty: "get empty k = None"
    and get_ins: "wf m \<Longrightarrow> get (ins k v m) k' = (if k' = k then Some v else get m k')"
    and get_del: "wf m \<Longrightarrow> get (del k m) k' = (if k' = k then None else get m k')"
    and wf_empty: "wf empty"
    and wf_ins: "wf m \<Longrightarrow> wf (ins k v m)"
    and wf_del: "wf m \<Longrightarrow> wf (del k m)"
begin

lemma wf_collect: "wf m \<Longrightarrow> wf (fold (\<lambda>(k, v). ins k v) kvs m)"
  by (induction kvs arbitrary: m) (auto simp: wf_ins)

lemma get_collect:
  "wf m \<Longrightarrow> get (fold (\<lambda>(k, v). ins k v) kvs m) k =
     (case map_of (rev kvs) k of Some v \<Rightarrow> Some v | None \<Rightarrow> get m k)"
  by (induction kvs arbitrary: m)
    (auto simp: wf_ins get_ins map_add_def split: option.splits)

lemma collect_from_empty: "get (fold (\<lambda>(k, v). ins k v) kvs empty) = map_of (rev kvs)"
  by (rule ext) (simp add: get_collect wf_empty get_empty split: option.splits)

lemma ins_del_same: "wf m \<Longrightarrow> get (del k (ins k v m)) k' = get (del k m) k'"
  by (simp add: get_del get_ins wf_ins)

end

section \<open>HashMap\<close>

type_synonym ('k, 'v) hashmap = "('k \<times> 'v) list"

definition hm_get :: "('k, 'v) hashmap \<Rightarrow> 'k \<Rightarrow> 'v option" where
  "hm_get m k = map_of m k"

primrec hm_insert :: "'k \<Rightarrow> 'v \<Rightarrow> ('k, 'v) hashmap \<Rightarrow> ('k, 'v) hashmap" where
  "hm_insert k v [] = [(k, v)]"
| "hm_insert k v (e # m) = (if fst e = k then (k, v) # m else e # hm_insert k v m)"

definition hm_remove :: "'k \<Rightarrow> ('k, 'v) hashmap \<Rightarrow> ('k, 'v) hashmap" where
  "hm_remove k m = filter (\<lambda>e. fst e \<noteq> k) m"

text \<open>\<open>entry(k).and_modify(f)\<close>: nothing happens when the key is missing.\<close>

definition hm_modify :: "'k \<Rightarrow> ('v \<Rightarrow> 'v) \<Rightarrow> ('k, 'v) hashmap \<Rightarrow> ('k, 'v) hashmap" where
  "hm_modify k f m = map (\<lambda>e. if fst e = k then (k, f (snd e)) else e) m"

text \<open>\<open>entry(k).and_modify(f).or_insert(v)\<close> and \<open>entry(k).or_insert(v)\<close>.\<close>

definition hm_modify_or :: "'k \<Rightarrow> ('v \<Rightarrow> 'v) \<Rightarrow> 'v \<Rightarrow> ('k, 'v) hashmap \<Rightarrow> ('k, 'v) hashmap" where
  "hm_modify_or k f v m =
     (case hm_get m k of Some _ \<Rightarrow> hm_modify k f m | None \<Rightarrow> hm_insert k v m)"

definition hm_or_insert :: "'k \<Rightarrow> 'v \<Rightarrow> ('k, 'v) hashmap \<Rightarrow> ('k, 'v) hashmap" where
  "hm_or_insert k v m = (case hm_get m k of Some _ \<Rightarrow> m | None \<Rightarrow> hm_insert k v m)"

definition hm_wf :: "('k, 'v) hashmap \<Rightarrow> bool" where
  "hm_wf m \<longleftrightarrow> distinct (map fst m)"

lemma hm_wf_Nil [simp]: "hm_wf []"
  by (simp add: hm_wf_def)

lemma hm_get_Nil [simp]: "hm_get [] k = None"
  by (simp add: hm_get_def)

lemma hm_get_insert [map_simps]: "hm_get (hm_insert k v m) k' = (if k' = k then Some v else hm_get m k')"
  by (induction m) (auto simp: hm_get_def)

lemma hm_get_remove [map_simps]: "hm_get (hm_remove k m) k' = (if k' = k then None else hm_get m k')"
  by (induction m) (auto simp: hm_get_def hm_remove_def)

lemma hm_get_modify [map_simps]:
  "hm_get (hm_modify k f m) k' = (if k' = k then map_option f (hm_get m k) else hm_get m k')"
  by (induction m) (auto simp: hm_get_def hm_modify_def)

lemma hm_get_modify_or [map_simps]:
  "hm_get (hm_modify_or k f v m) k' =
     (if k' = k then Some (case hm_get m k of Some x \<Rightarrow> f x | None \<Rightarrow> v) else hm_get m k')"
  by (auto simp: hm_modify_or_def map_simps split: option.splits)

lemma hm_get_or_insert [map_simps]:
  "hm_get (hm_or_insert k v m) k' =
     (if k' = k then Some (case hm_get m k of Some x \<Rightarrow> x | None \<Rightarrow> v) else hm_get m k')"
  by (auto simp: hm_or_insert_def map_simps split: option.splits)

lemma fst_set_hm_insert: "fst ` set (hm_insert k v m) = insert k (fst ` set m)"
  by (induction m) auto

lemma map_fst_hm_modify [simp]: "map fst (hm_modify k f m) = map fst m"
  by (induction m) (auto simp: hm_modify_def)

lemma hm_wf_insert [simp]: "hm_wf m \<Longrightarrow> hm_wf (hm_insert k v m)"
proof (induction m)
  case (Cons e m)
  then show ?case
    using fst_set_hm_insert [of k v m] by (auto simp: hm_wf_def)
qed (simp add: hm_wf_def)

lemma hm_wf_filter [simp]: "hm_wf m \<Longrightarrow> hm_wf (filter P m)"
  by (simp add: hm_wf_def distinct_map_filter)

lemma hm_wf_remove [simp]: "hm_wf m \<Longrightarrow> hm_wf (hm_remove k m)"
  by (simp add: hm_remove_def)

lemma hm_wf_modify [simp]: "hm_wf (hm_modify k f m) = hm_wf m"
  by (simp add: hm_wf_def)

lemma hm_wf_modify_or [simp]: "hm_wf m \<Longrightarrow> hm_wf (hm_modify_or k f v m)"
  by (simp add: hm_modify_or_def split: option.splits)

lemma hm_wf_or_insert [simp]: "hm_wf m \<Longrightarrow> hm_wf (hm_or_insert k v m)"
  by (simp add: hm_or_insert_def split: option.splits)

lemma hm_get_iff_mem: "hm_wf m \<Longrightarrow> hm_get m k = Some v \<longleftrightarrow> (k, v) \<in> set m"
  by (simp add: hm_get_def hm_wf_def)

lemma hm_get_mem: "hm_get m k = Some v \<Longrightarrow> (k, v) \<in> set m"
  by (simp add: hm_get_def map_of_SomeD)

lemma hm_get_None_iff: "hm_get m k = None \<longleftrightarrow> k \<notin> fst ` set m"
  by (simp add: hm_get_def map_of_eq_None_iff)

lemma mem_hm_remove: "x \<in> set (hm_remove k m) \<longleftrightarrow> x \<in> set m \<and> fst x \<noteq> k"
  by (simp add: hm_remove_def)

lemma mem_hm_insert: "hm_wf m \<Longrightarrow> x \<in> set (hm_insert k v m) \<longleftrightarrow> x = (k, v) \<or> (x \<in> set m \<and> fst x \<noteq> k)"
  by (induction m) (auto simp: hm_wf_def intro: rev_image_eqI)

lemma hm_remove_absent: "hm_get m k = None \<Longrightarrow> hm_remove k m = m"
  by (auto simp: hm_remove_def hm_get_None_iff intro!: filter_True)

lemma hm_insert_absent: "hm_get m k = None \<Longrightarrow> hm_insert k v m = m @ [(k, v)]"
  by (induction m) (auto simp: hm_get_def split: if_splits)

interpretation hm: dictionary hm_get hm_insert hm_remove "[]" hm_wf
  by unfold_locales (auto simp: map_simps)

text \<open>\<open>into_iter().collect()\<close> into a map: a later entry replaces an earlier one.\<close>

definition hm_collect :: "('k \<times> 'v) list \<Rightarrow> ('k, 'v) hashmap" where
  "hm_collect kvs = fold (\<lambda>(k, v). hm_insert k v) kvs []"

lemma hm_get_collect: "hm_get (hm_collect kvs) = map_of (rev kvs)"
  unfolding hm_collect_def by (rule hm.collect_from_empty)

lemma hm_wf_collect [simp]: "hm_wf (hm_collect kvs)"
  unfolding hm_collect_def by (rule hm.wf_collect) simp

section \<open>Iteration order\<close>

text \<open>
  The entries of a hash map in the order \<open>ord\<close> of its keys. \<open>iteration_order ord\<close> is what
  Rust documents of an iteration: every key exactly once.
\<close>

definition hm_iter :: "('k list \<Rightarrow> 'k list) \<Rightarrow> ('k, 'v) hashmap \<Rightarrow> ('k \<times> 'v) list" where
  "hm_iter ord m =
     concat (map (\<lambda>k. case hm_get m k of Some v \<Rightarrow> [(k, v)] | None \<Rightarrow> []) (ord (map fst m)))"

definition iteration_order :: "('k list \<Rightarrow> 'k list) \<Rightarrow> bool" where
  "iteration_order ord \<longleftrightarrow> (\<forall>ks. distinct ks \<longrightarrow> distinct (ord ks) \<and> set (ord ks) = set ks)"

lemma iteration_order_id [simp]: "iteration_order (\<lambda>ks. ks)"
  by (simp add: iteration_order_def)

lemma iteration_order_distinct: "iteration_order ord \<Longrightarrow> distinct ks \<Longrightarrow> distinct (ord ks)"
  by (simp add: iteration_order_def)

lemma iteration_order_set: "iteration_order ord \<Longrightarrow> distinct ks \<Longrightarrow> set (ord ks) = set ks"
  by (simp add: iteration_order_def)

lemma set_hm_iter:
  assumes "iteration_order ord" and "hm_wf m"
  shows "set (hm_iter ord m) = set m"
proof -
  have "set (ord (map fst m)) = fst ` set m"
    using assms by (simp add: hm_wf_def iteration_order_set)
  moreover have "(k, v) \<in> set m \<longleftrightarrow> hm_get m k = Some v" for k v
    using assms(2) by (simp add: hm_get_iff_mem)
  ultimately show ?thesis
    by (force simp: hm_iter_def split: option.splits)
qed

lemma map_fst_lookups:
  "\<forall>k \<in> set ks. hm_get m k \<noteq> None \<Longrightarrow>
   map fst (concat (map (\<lambda>k. case hm_get m k of Some v \<Rightarrow> [(k, v)] | None \<Rightarrow> []) ks)) = ks"
  by (induction ks) auto

lemma map_fst_hm_iter:
  assumes "iteration_order ord" and "hm_wf m"
  shows "map fst (hm_iter ord m) = ord (map fst m)"
proof -
  have "set (ord (map fst m)) = fst ` set m"
    using assms by (simp add: hm_wf_def iteration_order_set)
  then have "\<forall>k \<in> set (ord (map fst m)). hm_get m k \<noteq> None"
    by (simp add: hm_get_None_iff)
  then show ?thesis
    unfolding hm_iter_def by (rule map_fst_lookups)
qed

text \<open>Collecting the entries of an iteration gives the map back.\<close>

lemma hm_get_collect_iter:
  assumes "iteration_order ord" and "hm_wf m"
  shows "hm_get (hm_collect (hm_iter ord m)) = hm_get m"
proof (rule ext)
  fix k
  have "distinct (map fst (hm_iter ord m))"
    using assms by (simp add: map_fst_hm_iter hm_wf_def iteration_order_distinct)
  then have "map_of (rev (hm_iter ord m)) k = Some v \<longleftrightarrow> map_of m k = Some v" for v
    using assms(2) set_hm_iter [OF assms] by (simp add: hm_wf_def rev_map [symmetric])
  then have "map_of (rev (hm_iter ord m)) k = map_of m k"
    by (cases "map_of m k") (auto intro: option.exhaust)
  then show "hm_get (hm_collect (hm_iter ord m)) k = hm_get m k"
    by (simp add: hm_get_collect) (simp add: hm_get_def)
qed

section \<open>HashSet\<close>

type_synonym 'a hashset = "'a list"

definition hs_insert :: "'a \<Rightarrow> 'a hashset \<Rightarrow> 'a hashset" where
  "hs_insert x s = (if x \<in> set s then s else s @ [x])"

definition hs_remove :: "'a \<Rightarrow> 'a hashset \<Rightarrow> 'a hashset" where
  "hs_remove x s = filter (\<lambda>y. y \<noteq> x) s"

lemma set_hs_insert [simp]: "set (hs_insert x s) = insert x (set s)"
  by (auto simp: hs_insert_def)

lemma set_hs_remove [simp]: "set (hs_remove x s) = set s - {x}"
  by (auto simp: hs_remove_def)

lemma distinct_hs_insert [simp]: "distinct s \<Longrightarrow> distinct (hs_insert x s)"
  by (simp add: hs_insert_def)

lemma distinct_hs_remove [simp]: "distinct s \<Longrightarrow> distinct (hs_remove x s)"
  by (simp add: hs_remove_def)

section \<open>BTreeMap\<close>

type_synonym ('k, 'v) btreemap = "('k \<times> 'v) list"

definition bt_get :: "('k, 'v) btreemap \<Rightarrow> 'k \<Rightarrow> 'v option" where
  "bt_get m k = map_of m k"

primrec bt_insert :: "'k::linorder \<Rightarrow> 'v \<Rightarrow> ('k, 'v) btreemap \<Rightarrow> ('k, 'v) btreemap" where
  "bt_insert k v [] = [(k, v)]"
| "bt_insert k v (e # m) =
     (if k < fst e then (k, v) # e # m
      else if k = fst e then (k, v) # m
      else e # bt_insert k v m)"

definition bt_remove :: "'k \<Rightarrow> ('k, 'v) btreemap \<Rightarrow> ('k, 'v) btreemap" where
  "bt_remove k m = filter (\<lambda>e. fst e \<noteq> k) m"

definition bt_last :: "('k, 'v) btreemap \<Rightarrow> ('k \<times> 'v) option" where
  "bt_last m = (if m = [] then None else Some (last m))"

definition bt_wf :: "('k::linorder, 'v) btreemap \<Rightarrow> bool" where
  "bt_wf m \<longleftrightarrow> sorted_wrt (<) (map fst m)"

lemma bt_wf_Nil [simp]: "bt_wf []"
  by (simp add: bt_wf_def)

lemma bt_get_Nil [simp]: "bt_get [] k = None"
  by (simp add: bt_get_def)

lemma fst_set_bt_insert: "fst ` set (bt_insert k v m) = insert k (fst ` set m)"
  by (induction m) auto

lemma bt_get_above: "bt_wf (e # m) \<Longrightarrow> k \<le> fst e \<Longrightarrow> k \<notin> fst ` set m"
  by (auto simp: bt_wf_def)

lemma bt_get_insert [map_simps]:
  "bt_wf m \<Longrightarrow> bt_get (bt_insert k v m) k' = (if k' = k then Some v else bt_get m k')"
  by (induction m) (auto simp: bt_get_def bt_wf_def)

lemma bt_get_remove [map_simps]: "bt_get (bt_remove k m) k' = (if k' = k then None else bt_get m k')"
  by (induction m) (auto simp: bt_get_def bt_remove_def)

lemma bt_wf_insert [simp]: "bt_wf m \<Longrightarrow> bt_wf (bt_insert k v m)"
proof (induction m)
  case (Cons e m)
  have "\<forall>x \<in> fst ` set m. fst e < x"
    using Cons.prems by (auto simp: bt_wf_def)
  moreover have "fst e < k \<Longrightarrow> \<forall>x \<in> fst ` set (bt_insert k v m). fst e < x"
    using calculation by (simp only: fst_set_bt_insert) auto
  ultimately show ?case
    using Cons by (auto simp: bt_wf_def)
qed (simp add: bt_wf_def)

lemma bt_wf_filter [simp]: "bt_wf m \<Longrightarrow> bt_wf (filter P m)"
  by (simp add: bt_wf_def sorted_wrt_map sorted_wrt_filter)

lemma bt_wf_remove [simp]: "bt_wf m \<Longrightarrow> bt_wf (bt_remove k m)"
  by (simp add: bt_remove_def)

interpretation bt: dictionary bt_get bt_insert bt_remove "[]" bt_wf
  by unfold_locales (auto simp: map_simps)

lemma bt_insert_top: "\<forall>x \<in> fst ` set m. x < k \<Longrightarrow> bt_insert k v m = m @ [(k, v)]"
  by (induction m) auto

lemma bt_below_last:
  assumes "bt_wf m" and "x \<in> fst ` set m"
  shows "x \<le> fst (last m)"
proof -
  have ne: "m \<noteq> []"
    using assms(2) by auto
  have "sorted_wrt (<) (map fst (butlast m) @ [fst (last m)])"
    using assms(1) ne by (metis append_butlast_last_id bt_wf_def list.map(1) list.map(2) map_append)
  moreover have "set m = insert (last m) (set (butlast m))"
    using ne by (metis append_butlast_last_id list.set(1) list.simps(15) rotate1.simps(2) set_rotate1)
  ultimately show ?thesis
    using assms(2) by (auto simp: sorted_wrt_append)
qed

lemma bt_insert_after_last:
  assumes "bt_wf m" and "case bt_last m of None \<Rightarrow> True | Some (k', _) \<Rightarrow> k' < k"
  shows "bt_insert k v m = m @ [(k, v)]"
proof (rule bt_insert_top, rule ballI)
  fix x assume x: "x \<in> fst ` set m"
  then have "x \<le> fst (last m)"
    by (rule bt_below_last [OF assms(1)])
  moreover have "m \<noteq> []"
    using x by auto
  then have "fst (last m) < k"
    using assms(2) by (simp add: bt_last_def split: prod.splits)
  ultimately show "x < k"
    by (rule le_less_trans)
qed

section \<open>BTreeSet\<close>

primrec bs_insert :: "'a::linorder \<Rightarrow> 'a list \<Rightarrow> 'a list" where
  "bs_insert x [] = [x]"
| "bs_insert x (y # s) =
     (if x < y then x # y # s else if x = y then x # s else y # bs_insert x s)"

definition bs_remove :: "'a \<Rightarrow> 'a list \<Rightarrow> 'a list" where
  "bs_remove x s = filter (\<lambda>y. y \<noteq> x) s"

definition bs_wf :: "'a::linorder list \<Rightarrow> bool" where
  "bs_wf s \<longleftrightarrow> sorted_wrt (<) s"

lemma bs_wf_Nil [simp]: "bs_wf []"
  by (simp add: bs_wf_def)

lemma set_bs_insert [simp]: "set (bs_insert x s) = insert x (set s)"
  by (induction s) auto

lemma set_bs_remove [simp]: "set (bs_remove x s) = set s - {x}"
  by (auto simp: bs_remove_def)

lemma bs_wf_insert [simp]: "bs_wf s \<Longrightarrow> bs_wf (bs_insert x s)"
  by (induction s) (auto simp: bs_wf_def)

lemma bs_wf_remove [simp]: "bs_wf s \<Longrightarrow> bs_wf (bs_remove x s)"
  by (simp add: bs_wf_def bs_remove_def sorted_wrt_filter)

lemma bs_wf_distinct: "bs_wf s \<Longrightarrow> distinct s"
  by (simp add: bs_wf_def strict_sorted_iff)

lemma length_bs_insert: "bs_wf s \<Longrightarrow> length (bs_insert x s) = (if x \<in> set s then length s else Suc (length s))"
  by (induction s) (auto simp: bs_wf_def)

end
