(* ===== verification/Command.thy ===== *)
theory Command
  imports Resp Collections Float64
begin

text \<open>
  \<open>command.rs\<close>: the commands, their decoding from RESP (\<open>from_resp\<close>) and the encoding of
  those that travel to a replica or into the append-only file (\<open>to_resp\<close>), the facts the
  store needs about a command, and the choice of the next stream id. Decoding panics where
  the source indexes, unwraps or asserts.
\<close>

section \<open>Commands\<close>

datatype xadd_stream_id = XaddExplicit u64 u64 | AutoGenSeq u64 | AugoGen

datatype xread_stream_id = XreadExplicit u64 u64 | DollarId

datatype (plugins only: size code) command =
    Echo bytes
  | Ping "bytes option"
  | Set key bytes "u64 option" "u64 option"
  | Get key
  | Rpush key "bytes list"
  | Lrange key i32 i32
  | Lpush key "bytes list"
  | Llen key
  | Lpop key "u32 option"
  | Blpop "key list" f64
  | Type key
  | Xadd key xadd_stream_id "bytes list"
  | Xrange key stream_key stream_key
  | Xread "key list" "u64 option" "xread_stream_id list"
  | Incr key
  | Multi
  | Exec
  | Discard
  | Watch "key list"
  | Unwatch
  | InternalExecuteTx "command list"
  | Info "bytes option"
  | ReplconfListeningPort u16
  | ReplconfCapa "bytes list"
  | Psync bytes i64
  | ReplconfGetAck
  | ReplconfAck u64
  | Wait u64 u64
  | ConfigGet bytes
  | Keys bytes
  | Subscribe "bytes list"
  | Publish bytes bytes
  | Unsubscribe "bytes list"
  | Zadd bytes f64 bytes
  | Zrank bytes bytes
  | Zrange bytes i32 i32
  | Zcard bytes
  | Zscore bytes bytes
  | Zrem bytes bytes
  | Geoadd bytes f64 f64 bytes
  | Geopos bytes "bytes list"
  | Geodist bytes bytes bytes
  | Geosearch bytes f64 f64 f64 bytes
  | AclWhoami
  | AclGetuser bytes
  | AclSetuser bytes bytes
  | Auth bytes bytes

primrec name :: "command \<Rightarrow> string" where
  "name (Echo _) = ''echo''"
| "name (Ping _) = ''ping''"
| "name (Set _ _ _ _) = ''set''"
| "name (Get _) = ''get''"
| "name (Rpush _ _) = ''rpush''"
| "name (Lrange _ _ _) = ''lrange''"
| "name (Lpush _ _) = ''lpush''"
| "name (Llen _) = ''llen''"
| "name (Lpop _ _) = ''lpop''"
| "name (Blpop _ _) = ''blpop''"
| "name (Type _) = ''type''"
| "name (Xadd _ _ _) = ''xadd''"
| "name (Xrange _ _ _) = ''xrange''"
| "name (Xread _ _ _) = ''xread''"
| "name (Incr _) = ''incr''"
| "name Multi = ''multi''"
| "name Exec = ''exec''"
| "name Discard = ''discard''"
| "name (Watch _) = ''watch''"
| "name Unwatch = ''unwatch''"
| "name (InternalExecuteTx _) = ''exec''"
| "name (Info _) = ''info''"
| "name (ReplconfListeningPort _) = ''replconf''"
| "name (ReplconfCapa _) = ''replconf''"
| "name ReplconfGetAck = ''replconf''"
| "name (ReplconfAck _) = ''replconf''"
| "name (Psync _ _) = ''psync''"
| "name (Wait _ _) = ''wait''"
| "name (ConfigGet _) = ''config|get''"
| "name (Keys _) = ''keys''"
| "name (Subscribe _) = ''subscribe''"
| "name (Publish _ _) = ''publish''"
| "name (Unsubscribe _) = ''unsubscribe''"
| "name (Zadd _ _ _) = ''zadd''"
| "name (Zrank _ _) = ''zrank''"
| "name (Zrange _ _ _) = ''zrange''"
| "name (Zcard _) = ''zcard''"
| "name (Zscore _ _) = ''zscore''"
| "name (Zrem _ _) = ''zrem''"
| "name (Geoadd _ _ _ _) = ''geoadd''"
| "name (Geopos _ _) = ''geopos''"
| "name (Geodist _ _ _) = ''geodist''"
| "name (Geosearch _ _ _ _ _) = ''geosearch''"
| "name AclWhoami = ''aclwhoami''"
| "name (AclGetuser _) = ''aclgetuser''"
| "name (AclSetuser _ _) = ''aclsetuser''"
| "name (Auth _ _) = ''auth''"


section \<open>Stream ids\<close>

text \<open>
  \<open>match p.parse(id) { Ok(..) => .., _ => .. }\<close>: the parsers used here never panic, so a
  result is a success or not.
\<close>

definition parsed :: "'a presult \<Rightarrow> 'a option" where
  "parsed r = (case r of POk a _ \<Rightarrow> Some a | _ \<Rightarrow> None)"

definition id_pair :: "(u64 \<times> u8 \<times> u64) parser" where
  "id_pair = and3 (integer u64_from_str) (byte 45) (integer u64_from_str)"

definition parse_input_stream_id :: "bytes \<Rightarrow> xadd_stream_id option" where
  "parse_input_stream_id ident =
     (case parsed (id_pair ident) of
        Some (tid, _, sid) \<Rightarrow> Some (XaddExplicit tid sid)
      | None \<Rightarrow>
          (case parsed (and3 (integer u64_from_str) (byte 45) (byte 42) ident) of
             Some (tid, _, _) \<Rightarrow> Some (AutoGenSeq tid)
           | None \<Rightarrow>
               (case parsed (byte 42 ident) of Some _ \<Rightarrow> Some AugoGen | None \<Rightarrow> None)))"

definition parse_xread_stream_id_input :: "bytes \<Rightarrow> xread_stream_id option" where
  "parse_xread_stream_id_input ident =
     (case parsed (id_pair ident) of
        Some (tid, _, sid) \<Rightarrow> Some (XreadExplicit tid sid)
      | None \<Rightarrow> (case parsed (byte 36 ident) of Some _ \<Rightarrow> Some DollarId | None \<Rightarrow> None))"

type_synonym redis_stream = "(stream_key, bytes list) btreemap"

text \<open>\<open>now\<close> is the clock in milliseconds. The sequence number wraps at its width.\<close>

definition next_stream_id :: "u64 \<Rightarrow> xadd_stream_id \<Rightarrow> redis_stream \<Rightarrow> stream_key option" where
  "next_stream_id now ski stream =
     (let latest = bt_last stream in
      case ski of
        XaddExplicit tid sid \<Rightarrow> Some (tid, sid)
      | AutoGenSeq tid \<Rightarrow>
          (case latest of
             Some ((orig_tid, orig_sid), _) \<Rightarrow>
               if orig_tid < tid then Some (tid, 0)
               else if tid = orig_tid then Some (tid, orig_sid + 1)
               else None
           | None \<Rightarrow> if tid = 0 then Some (tid, 1) else Some (tid, 0))
      | AugoGen \<Rightarrow>
          (let tid = now in
           case latest of
             Some ((orig_tid, orig_sid), _) \<Rightarrow>
               if orig_tid < tid then Some (tid, 0)
               else if orig_tid = tid then Some (tid, orig_sid + 1)
               else None
           | None \<Rightarrow> Some (tid, 0)))"

section \<open>Decoding\<close>

text \<open>\<open>els[i].get_bytes().unwrap()\<close>, \<open>els[i].get_str().unwrap()\<close>, and a string parsed.\<close>

definition bytes_arg :: "resp list \<Rightarrow> nat \<Rightarrow> bytes outcome" where
  "bytes_arg els i = obind (index els i) (\<lambda>e. unwrap (get_bytes e))"

definition str_arg :: "resp list \<Rightarrow> nat \<Rightarrow> bytes outcome" where
  "str_arg els i = obind (index els i) (\<lambda>e. unwrap (get_str e))"

definition parse_arg :: "(bytes \<Rightarrow> 'a option) \<Rightarrow> resp list \<Rightarrow> nat \<Rightarrow> 'a outcome" where
  "parse_arg from_str els i = obind (str_arg els i) (\<lambda>s. unwrap (from_str s))"

definition slice_from :: "nat \<Rightarrow> 'a list \<Rightarrow> 'a list outcome" where
  "slice_from i els = (if i \<le> length els then Return (drop i els) else Panic IndexPanic)"

definition bytes_args :: "nat \<Rightarrow> resp list \<Rightarrow> bytes list outcome" where
  "bytes_args i els = obind (slice_from i els) (omap (\<lambda>e. unwrap (get_bytes e)))"

text \<open>\<open>String::from_utf8(e.get_bytes().unwrap()).unwrap()\<close> on \<open>els[i..]\<close>.\<close>

definition string_args :: "nat \<Rightarrow> resp list \<Rightarrow> bytes list outcome" where
  "string_args i els =
     obind (slice_from i els)
       (omap (\<lambda>e. obind (unwrap (get_bytes e)) (\<lambda>b. unwrap (from_utf8 b))))"

definition u32_from_str :: "bytes \<Rightarrow> u32 option" where
  "u32_from_str s = map_option word_of_nat (uint_from_str 32 s)"

definition u16_from_str :: "bytes \<Rightarrow> u16 option" where
  "u16_from_str s = map_option word_of_nat (uint_from_str 16 s)"

definition i32_from_str :: "bytes \<Rightarrow> i32 option" where
  "i32_from_str s = map_option word_of_int (int_from_str 32 s)"

type_synonym decoded = "command option outcome"

abbreviation decoded :: "command \<Rightarrow> decoded" where
  "decoded c \<equiv> Return (Some c)"

definition set_from_resp :: "resp list \<Rightarrow> decoded" where
  "set_from_resp els =
     (if length els = 3 then
        obind (bytes_arg els 1) (\<lambda>k. obind (bytes_arg els 2) (\<lambda>v.
          decoded (Set k v None None)))
      else if length els = 5 then
        obind (parse_arg u64_from_str els 4) (\<lambda>ttl.
        obind (str_arg els 3) (\<lambda>opt.
          let o_up = to_ascii_uppercase opt;
              (ex, px) = (if o_up = as_bytes ''EX'' then (Some ttl, None)
                          else if o_up = as_bytes ''PX'' then (None, Some ttl)
                          else (None, None))
          in obind (bytes_arg els 1) (\<lambda>k. obind (bytes_arg els 2) (\<lambda>v.
               decoded (Set k v ex px)))))
      else Return None)"

text \<open>\<open>RPUSH\<close> and \<open>LPUSH\<close>: at least a key and one element.\<close>

definition push_from_resp :: "(key \<Rightarrow> bytes list \<Rightarrow> command) \<Rightarrow> resp list \<Rightarrow> decoded" where
  "push_from_resp mk els =
     (if length els \<le> 2 then Return None
      else obind (bytes_arg els 1) (\<lambda>k. obind (bytes_args 2 els) (\<lambda>xs. decoded (mk k xs))))"

definition lpop_from_resp :: "resp list \<Rightarrow> decoded" where
  "lpop_from_resp els =
     obind (bytes_arg els 1) (\<lambda>k.
       if 2 < length els then obind (parse_arg u32_from_str els 2) (\<lambda>c. decoded (Lpop k (Some c)))
       else decoded (Lpop k None))"

definition blpop_from_resp :: "resp list \<Rightarrow> decoded" where
  "blpop_from_resp els =
     obind (unwrap (get_str (last els))) (\<lambda>s.
     obind (unwrap (f64_from_str s)) (\<lambda>timeout.
     obind (if 1 \<le> length els - 1 then Return (drop 1 (butlast els)) else Panic IndexPanic) (\<lambda>ks.
     obind (omap (\<lambda>k. unwrap (get_bytes k)) ks) (\<lambda>keys.
       decoded (Blpop keys timeout)))))"

definition xadd_from_resp :: "resp list \<Rightarrow> decoded" where
  "xadd_from_resp els =
     obind (bytes_arg els 2) (\<lambda>id_bytes.
     obind (bytes_arg els 1) (\<lambda>k.
     obind (unwrap (parse_input_stream_id id_bytes)) (\<lambda>id.
     obind (bytes_args 3 els) (\<lambda>fvs.
       decoded (Xadd k id fvs)))))"

text \<open>A bound of \<open>XRANGE\<close>: a literal for the smallest or largest id, or an explicit id.\<close>

definition xrange_bound :: "u8 \<Rightarrow> stream_key \<Rightarrow> bytes \<Rightarrow> stream_key outcome" where
  "xrange_bound lit limit s =
     (if s = [lit] then Return limit
      else obind (unwrap (parsed (id_pair s))) (\<lambda>(tid, _, sid). Return (tid, sid)))"

definition xrange_from_resp :: "resp list \<Rightarrow> decoded" where
  "xrange_from_resp els =
     obind (bytes_arg els 1) (\<lambda>k.
     obind (bytes_arg els 2) (\<lambda>s.
     obind (bytes_arg els 3) (\<lambda>e.
     obind (xrange_bound 45 (0, 1) s) (\<lambda>start.
     obind (xrange_bound 43 (- 1, - 1) e) (\<lambda>stop.
       decoded (Xrange k start stop))))))"

definition xread_from_resp :: "resp list \<Rightarrow> decoded" where
  "xread_from_resp els =
     obind (str_arg els 1) (\<lambda>s1.
     obind (if eq_ignore_ascii_case s1 (as_bytes ''BLOCK'')
            then obind (parse_arg u64_from_str els 2) (\<lambda>ms. Return (3, Some ms))
            else Return (1, None)) (\<lambda>(i, milliseconds).
     obind (str_arg els i) (\<lambda>lit.
     obind (assert (eq_ignore_ascii_case lit (as_bytes ''STREAMS''))) (\<lambda>_.
     obind (slice_from (i + 1) els) (\<lambda>rest.
     obind (assert (even (length rest))) (\<lambda>_.
     let half = length rest div 2 in
     obind (omap (\<lambda>k. unwrap (get_bytes k)) (take half rest)) (\<lambda>keys.
     obind (omap (\<lambda>id. obind (unwrap (get_bytes id)) (\<lambda>b. unwrap (parse_xread_stream_id_input b)))
              (drop half rest)) (\<lambda>ids.
       decoded (Xread keys milliseconds ids)))))))))"

definition replconf_from_resp :: "resp list \<Rightarrow> decoded" where
  "replconf_from_resp els =
     obind (str_arg els 1) (\<lambda>s.
       let sub = to_ascii_uppercase s in
       if sub = as_bytes ''LISTENING-PORT'' then
         obind (parse_arg u16_from_str els 2) (\<lambda>p. decoded (ReplconfListeningPort p))
       else if sub = as_bytes ''CAPA'' then
         obind (bytes_args 2 els) (\<lambda>cs. decoded (ReplconfCapa cs))
       else if sub = as_bytes ''GETACK'' then decoded ReplconfGetAck
       else if sub = as_bytes ''ACK'' then
         obind (parse_arg u64_from_str els 2) (\<lambda>n. decoded (ReplconfAck n))
       else Panic ExplicitPanic)"

definition config_from_resp :: "resp list \<Rightarrow> decoded" where
  "config_from_resp els =
     obind (index els 1) (\<lambda>e.
       case get_str e of
         Some subcommand \<Rightarrow>
           if subcommand = as_bytes ''GET'' \<and> length els = 3
           then obind (str_arg els 2) (\<lambda>p. decoded (ConfigGet p))
           else Return None
       | None \<Rightarrow> Return None)"

text \<open>
  \<open>str::to_uppercase\<close> where it is compared with the four units: ASCII letters, and the
  dotless i, the only other letter whose upper case is a letter of a unit.
\<close>

fun to_uppercase :: "bytes \<Rightarrow> bytes" where
  "to_uppercase [] = []"
| "to_uppercase (b # r) =
     (case r of
        c # r' \<Rightarrow>
          if b = 196 \<and> c = 177 then 73 # to_uppercase r' else ascii_upper b # to_uppercase r
      | [] \<Rightarrow> [ascii_upper b])"

definition geosearch_from_resp :: "resp list \<Rightarrow> decoded" where
  "geosearch_from_resp els =
     obind (str_arg els 1) (\<lambda>k.
     obind (str_arg els 2) (\<lambda>fromlonlat.
     obind (assert (fromlonlat = as_bytes ''FROMLONLAT'')) (\<lambda>_.
     obind (parse_arg f64_from_str els 3) (\<lambda>longitude.
     obind (parse_arg f64_from_str els 4) (\<lambda>latitude.
     obind (str_arg els 5) (\<lambda>byradius.
     obind (assert (byradius = as_bytes ''BYRADIUS'')) (\<lambda>_.
     obind (parse_arg f64_from_str els 6) (\<lambda>radius.
     obind (str_arg els 7) (\<lambda>u.
       let unit_up = to_uppercase u in
     obind (assert (unit_up \<in> {as_bytes ''M'', as_bytes ''KM'', as_bytes ''FT'', as_bytes ''MI''})) (\<lambda>_.
       decoded (Geosearch k longitude latitude radius unit_up)))))))))))"

definition acl_from_resp :: "resp list \<Rightarrow> decoded" where
  "acl_from_resp els =
     obind (str_arg els 1) (\<lambda>sub.
       if sub = as_bytes ''WHOAMI'' then decoded AclWhoami
       else if sub = as_bytes ''GETUSER'' then
         obind (str_arg els 2) (\<lambda>u. decoded (AclGetuser u))
       else if sub = as_bytes ''SETUSER'' then
         obind (str_arg els 2) (\<lambda>u.
         obind (str_arg els 3) (\<lambda>p.
         obind (assert (starts_with p (as_bytes ''>''))) (\<lambda>_.
           decoded (AclSetuser u (drop 1 p)))))
       else Return None)"


text \<open>
  The \<open>match\<close> on the upper-cased name, group by group in the source's order; \<open>other\<close> is
  what follows when no arm of the group matches.
\<close>

definition basic_from_resp :: "bytes \<Rightarrow> resp list \<Rightarrow> decoded \<Rightarrow> decoded" where
  "basic_from_resp nm els other =
     (if nm = as_bytes ''ECHO'' then obind (bytes_arg els 1) (\<lambda>m. decoded (Echo m))
      else if nm = as_bytes ''PING'' then
        decoded (Ping (if 1 < length els then get_bytes (els ! 1) else None))
      else if nm = as_bytes ''SET'' then set_from_resp els
      else if nm = as_bytes ''GET'' then obind (bytes_arg els 1) (\<lambda>k. decoded (Get k))
      else other)"

definition list_from_resp :: "bytes \<Rightarrow> resp list \<Rightarrow> decoded \<Rightarrow> decoded" where
  "list_from_resp nm els other =
     (if nm = as_bytes ''RPUSH'' then push_from_resp Rpush els
      else if nm = as_bytes ''LRANGE'' then
        obind (bytes_arg els 1) (\<lambda>k. obind (parse_arg i32_from_str els 2) (\<lambda>a.
        obind (parse_arg i32_from_str els 3) (\<lambda>b. decoded (Lrange k a b))))
      else if nm = as_bytes ''LPUSH'' then push_from_resp Lpush els
      else if nm = as_bytes ''LLEN'' then obind (bytes_arg els 1) (\<lambda>k. decoded (Llen k))
      else if nm = as_bytes ''LPOP'' then lpop_from_resp els
      else if nm = as_bytes ''BLPOP'' then blpop_from_resp els
      else other)"

definition stream_from_resp :: "bytes \<Rightarrow> resp list \<Rightarrow> decoded \<Rightarrow> decoded" where
  "stream_from_resp nm els other =
     (if nm = as_bytes ''TYPE'' then obind (bytes_arg els 1) (\<lambda>k. decoded (Type k))
      else if nm = as_bytes ''XADD'' then xadd_from_resp els
      else if nm = as_bytes ''XRANGE'' then xrange_from_resp els
      else if nm = as_bytes ''XREAD'' then xread_from_resp els
      else other)"

definition tx_from_resp :: "bytes \<Rightarrow> resp list \<Rightarrow> decoded \<Rightarrow> decoded" where
  "tx_from_resp nm els other =
     (if nm = as_bytes ''INCR'' then obind (bytes_arg els 1) (\<lambda>k. decoded (Incr k))
      else if nm = as_bytes ''MULTI'' then decoded Multi
      else if nm = as_bytes ''EXEC'' then decoded Exec
      else if nm = as_bytes ''DISCARD'' then decoded Discard
      else if nm = as_bytes ''WATCH'' then obind (bytes_args 1 els) (\<lambda>ks. decoded (Watch ks))
      else if nm = as_bytes ''UNWATCH'' then decoded Unwatch
      else other)"

definition repl_from_resp :: "bytes \<Rightarrow> resp list \<Rightarrow> decoded \<Rightarrow> decoded" where
  "repl_from_resp nm els other =
     (if nm = as_bytes ''INFO'' then
        decoded (Info (if 1 < length els then get_bytes (els ! 1) else None))
      else if nm = as_bytes ''REPLCONF'' then replconf_from_resp els
      else if nm = as_bytes ''PSYNC'' then
        obind (str_arg els 1) (\<lambda>r. obind (parse_arg i64_from_str els 2) (\<lambda>n. decoded (Psync r n)))
      else if nm = as_bytes ''WAIT'' then
        obind (parse_arg u64_from_str els 1) (\<lambda>n. obind (parse_arg u64_from_str els 2) (\<lambda>t.
          decoded (Wait n t)))
      else if nm = as_bytes ''CONFIG'' then config_from_resp els
      else if nm = as_bytes ''KEYS'' then obind (str_arg els 1) (\<lambda>p. decoded (Keys p))
      else other)"

definition pubsub_from_resp :: "bytes \<Rightarrow> resp list \<Rightarrow> decoded \<Rightarrow> decoded" where
  "pubsub_from_resp nm els other =
     (if nm = as_bytes ''SUBSCRIBE'' then
        obind (string_args 1 els) (\<lambda>cs. decoded (Subscribe cs))
      else if nm = as_bytes ''PUBLISH'' then
        obind (str_arg els 1) (\<lambda>c. obind (str_arg els 2) (\<lambda>m. decoded (Publish c m)))
      else if nm = as_bytes ''UNSUBSCRIBE'' then
        obind (string_args 1 els) (\<lambda>cs. decoded (Unsubscribe cs))
      else other)"

text \<open>Two string arguments.\<close>

definition str2_from_resp :: "(bytes \<Rightarrow> bytes \<Rightarrow> command) \<Rightarrow> resp list \<Rightarrow> decoded" where
  "str2_from_resp mk els =
     obind (str_arg els 1) (\<lambda>k. obind (str_arg els 2) (\<lambda>m. decoded (mk k m)))"

definition zset_from_resp :: "bytes \<Rightarrow> resp list \<Rightarrow> decoded \<Rightarrow> decoded" where
  "zset_from_resp nm els other =
     (if nm = as_bytes ''ZADD'' then
        obind (str_arg els 1) (\<lambda>k. obind (parse_arg f64_from_str els 2) (\<lambda>score.
        obind (str_arg els 3) (\<lambda>m. decoded (Zadd k score m))))
      else if nm = as_bytes ''ZRANK'' then str2_from_resp Zrank els
      else if nm = as_bytes ''ZRANGE'' then
        obind (str_arg els 1) (\<lambda>k. obind (parse_arg i32_from_str els 2) (\<lambda>start.
        obind (parse_arg i32_from_str els 3) (\<lambda>stop. decoded (Zrange k start stop))))
      else if nm = as_bytes ''ZCARD'' then obind (str_arg els 1) (\<lambda>k. decoded (Zcard k))
      else if nm = as_bytes ''ZSCORE'' then str2_from_resp Zscore els
      else if nm = as_bytes ''ZREM'' then str2_from_resp Zrem els
      else other)"

definition geo_from_resp :: "bytes \<Rightarrow> resp list \<Rightarrow> decoded \<Rightarrow> decoded" where
  "geo_from_resp nm els other =
     (if nm = as_bytes ''GEOADD'' then
        obind (str_arg els 1) (\<lambda>k. obind (parse_arg f64_from_str els 2) (\<lambda>longitude.
        obind (parse_arg f64_from_str els 3) (\<lambda>latitude. obind (str_arg els 4) (\<lambda>m.
          decoded (Geoadd k longitude latitude m)))))
      else if nm = as_bytes ''GEOPOS'' then
        obind (str_arg els 1) (\<lambda>k. obind (string_args 2 els) (\<lambda>ms. decoded (Geopos k ms)))
      else if nm = as_bytes ''GEODIST'' then
        obind (str_arg els 1) (\<lambda>k. obind (str_arg els 2) (\<lambda>m1. obind (str_arg els 3) (\<lambda>m2.
          decoded (Geodist k m1 m2))))
      else if nm = as_bytes ''GEOSEARCH'' then geosearch_from_resp els
      else other)"

definition acl_group_from_resp :: "bytes \<Rightarrow> resp list \<Rightarrow> decoded \<Rightarrow> decoded" where
  "acl_group_from_resp nm els other =
     (if nm = as_bytes ''ACL'' then acl_from_resp els
      else if nm = as_bytes ''AUTH'' then str2_from_resp Auth els
      else other)"

definition from_resp :: "resp \<Rightarrow> decoded" where
  "from_resp r =
     (case r of
        Array els \<Rightarrow>
          obind (assert (els \<noteq> [])) (\<lambda>_.
          obind (str_arg els 0) (\<lambda>s.
            let nm = to_ascii_uppercase s in
            basic_from_resp nm els
              (list_from_resp nm els
                (stream_from_resp nm els
                  (tx_from_resp nm els
                    (repl_from_resp nm els
                      (pubsub_from_resp nm els
                        (zset_from_resp nm els
                          (geo_from_resp nm els
                            (acl_group_from_resp nm els (Return None)))))))))))
      | _ \<Rightarrow> Return None)"

section \<open>Encoding\<close>

text \<open>\<open>key.to_str()\<close> panics on a key that is not UTF-8.\<close>

definition key_to_str :: "key \<Rightarrow> bytes outcome" where
  "key_to_str k = unwrap (from_utf8 k)"

definition expiry_args :: "string \<Rightarrow> u64 option \<Rightarrow> resp list" where
  "expiry_args o_name x =
     (case x of Some n \<Rightarrow> [bulk_string o_name, BulkString (u64_to_string n)] | None \<Rightarrow> [])"

definition to_resp :: "command \<Rightarrow> resp option outcome" where
  "to_resp c =
     (case c of
        Set k v ex px \<Rightarrow>
          obind (key_to_str k) (\<lambda>ks.
            Return (Some (Array
              ([bulk_string ''SET'', BulkString ks, BulkString v]
               @ expiry_args ''EX'' ex @ expiry_args ''PX'' px))))
      | ReplconfGetAck \<Rightarrow>
          Return (Some (Array [bulk_string ''REPLCONF'', bulk_string ''GETACK'', bulk_string ''*'']))
      | ReplconfListeningPort port \<Rightarrow>
          Return (Some (Array
            [bulk_string ''REPLCONF'', bulk_string ''listening-port'',
             BulkString (nat_to_string (unat port))]))
      | ReplconfCapa capabilites \<Rightarrow>
          Return (Some (Array
            ([bulk_string ''REPLCONF'', bulk_string ''capa''] @ map BulkString capabilites)))
      | Psync replication_id offset \<Rightarrow>
          Return (Some (Array
            [bulk_string ''PSYNC'', BulkString replication_id, BulkString (i64_to_string offset)]))
      | Ping message \<Rightarrow>
          Return (Some (Array
            (bulk_string ''PING'' # (case message of Some m \<Rightarrow> [BulkString m] | None \<Rightarrow> []))))
      | _ \<Rightarrow> Return None)"

section \<open>What the store asks of a command\<close>

definition modified_keys :: "command \<Rightarrow> key list" where
  "modified_keys c =
     (case c of
        Set k _ _ _ \<Rightarrow> [k]
      | Lpush k _ \<Rightarrow> [k]
      | Rpush k _ \<Rightarrow> [k]
      | Incr k \<Rightarrow> [k]
      | Xadd k _ _ \<Rightarrow> [k]
      | _ \<Rightarrow> [])"

text \<open>In milliseconds; zero waits for ever. \<open>0x408F400000000000\<close> is \<open>1_000.0\<close>.\<close>

definition block_timeout :: "command \<Rightarrow> u64 option" where
  "block_timeout c =
     (case c of
        Blpop _ timeout \<Rightarrow>
          if f64_eq timeout 0 then Some (- 1)
          else Some (f64_to_u64 (f64_mul timeout 0x408F400000000000))
      | Xread _ (Some ms) _ \<Rightarrow> if ms = 0 then Some (- 1) else Some ms
      | _ \<Rightarrow> None)"

definition is_replicatable :: "command \<Rightarrow> bool" where
  "is_replicatable c =
     (case c of Set _ _ _ _ \<Rightarrow> True | ReplconfGetAck \<Rightarrow> True | _ \<Rightarrow> False)"

section \<open>What decoding guarantees\<close>

text \<open>
  Facts the rest of the program relies on without checking them again: decoding never makes
  the internal transaction command, a \<open>SET\<close> has one kind of expiry, a push has an element,
  \<open>XREAD\<close> has as many ids as keys, and strings are UTF-8.
\<close>

definition decoded_ok :: "command \<Rightarrow> bool" where
  "decoded_ok c =
     (case c of
        InternalExecuteTx _ \<Rightarrow> False
      | Set _ _ ex px \<Rightarrow> ex = None \<or> px = None
      | Rpush _ xs \<Rightarrow> xs \<noteq> []
      | Lpush _ xs \<Rightarrow> xs \<noteq> []
      | Xread ks _ ids \<Rightarrow> length ks = length ids
      | Psync r _ \<Rightarrow> utf8_valid r
      | _ \<Rightarrow> True)"

lemma get_str_utf8: "get_str r = Some s \<Longrightarrow> utf8_valid s"
  by (cases r) (auto simp: from_utf8_def split: if_splits)

lemma length_omap: "omap f xs = Return ys \<Longrightarrow> length ys = length xs"
  by (induction xs arbitrary: ys) auto

lemma basic_sound: "basic_from_resp nm els other = decoded c \<Longrightarrow> decoded_ok c \<or> other = decoded c"
  by (auto simp: basic_from_resp_def set_from_resp_def decoded_ok_def Let_def split: if_splits)

lemma list_sound: "list_from_resp nm els other = decoded c \<Longrightarrow> decoded_ok c \<or> other = decoded c"
  by (auto simp: list_from_resp_def push_from_resp_def lpop_from_resp_def blpop_from_resp_def
      bytes_args_def slice_from_def decoded_ok_def split: if_splits dest!: length_omap)

lemma stream_sound: "stream_from_resp nm els other = decoded c \<Longrightarrow> decoded_ok c \<or> other = decoded c"
  by (auto simp: stream_from_resp_def xadd_from_resp_def xrange_from_resp_def xread_from_resp_def
      decoded_ok_def Let_def split: if_splits dest!: length_omap)

lemma tx_sound: "tx_from_resp nm els other = decoded c \<Longrightarrow> decoded_ok c \<or> other = decoded c"
  by (auto simp: tx_from_resp_def decoded_ok_def split: if_splits)

lemma repl_sound: "repl_from_resp nm els other = decoded c \<Longrightarrow> decoded_ok c \<or> other = decoded c"
  by (auto simp: repl_from_resp_def replconf_from_resp_def config_from_resp_def decoded_ok_def Let_def
      str_arg_def get_str_utf8 split: if_splits option.splits)

lemma pubsub_sound: "pubsub_from_resp nm els other = decoded c \<Longrightarrow> decoded_ok c \<or> other = decoded c"
  by (auto simp: pubsub_from_resp_def decoded_ok_def split: if_splits)

lemma zset_sound: "zset_from_resp nm els other = decoded c \<Longrightarrow> decoded_ok c \<or> other = decoded c"
  by (auto simp: zset_from_resp_def str2_from_resp_def decoded_ok_def split: if_splits)

lemma geo_sound: "geo_from_resp nm els other = decoded c \<Longrightarrow> decoded_ok c \<or> other = decoded c"
  by (auto simp: geo_from_resp_def geosearch_from_resp_def decoded_ok_def Let_def split: if_splits)

lemma acl_sound: "acl_group_from_resp nm els other = decoded c \<Longrightarrow> decoded_ok c \<or> other = decoded c"
  by (auto simp: acl_group_from_resp_def acl_from_resp_def str2_from_resp_def decoded_ok_def Let_def split: if_splits)

lemma from_resp_sound: "from_resp r = decoded c \<Longrightarrow> decoded_ok c"
  by (cases r) (auto simp: from_resp_def Let_def dest!: basic_sound list_sound stream_sound tx_sound
      repl_sound pubsub_sound zset_sound geo_sound acl_sound)

section \<open>Commands on the wire\<close>

definition wire_ok :: "command \<Rightarrow> bool" where
  "wire_ok c =
     (case c of
        Set k _ ex px \<Rightarrow> utf8_valid k \<and> (ex = None \<or> px = None)
      | ReplconfGetAck \<Rightarrow> True
      | ReplconfListeningPort _ \<Rightarrow> True
      | ReplconfCapa _ \<Rightarrow> True
      | Psync r _ \<Rightarrow> utf8_valid r
      | Ping _ \<Rightarrow> True
      | _ \<Rightarrow> False)"

lemmas from_resp_arm = from_resp_def basic_from_resp_def list_from_resp_def stream_from_resp_def
  tx_from_resp_def repl_from_resp_def replconf_from_resp_def Let_def assert_def str_arg_def
  bytes_arg_def parse_arg_def index_def from_utf8_def bulk_string_def

lemma literal_utf8 [simp]:
  "utf8_valid (as_bytes ''SET'')" "utf8_valid (as_bytes ''EX'')" "utf8_valid (as_bytes ''PX'')"
  "utf8_valid (as_bytes ''REPLCONF'')" "utf8_valid (as_bytes ''GETACK'')"
  "utf8_valid (as_bytes ''listening-port'')" "utf8_valid (as_bytes ''capa'')"
  "utf8_valid (as_bytes ''PSYNC'')" "utf8_valid (as_bytes ''PING'')"
  by (simp_all add: byte_simps)

lemma literal_upper [simp]:
  "to_ascii_uppercase (as_bytes ''SET'') = as_bytes ''SET''"
  "to_ascii_uppercase (as_bytes ''EX'') = as_bytes ''EX''"
  "to_ascii_uppercase (as_bytes ''PX'') = as_bytes ''PX''"
  "to_ascii_uppercase (as_bytes ''REPLCONF'') = as_bytes ''REPLCONF''"
  "to_ascii_uppercase (as_bytes ''GETACK'') = as_bytes ''GETACK''"
  "to_ascii_uppercase (as_bytes ''listening-port'') = as_bytes ''LISTENING-PORT''"
  "to_ascii_uppercase (as_bytes ''capa'') = as_bytes ''CAPA''"
  "to_ascii_uppercase (as_bytes ''PSYNC'') = as_bytes ''PSYNC''"
  "to_ascii_uppercase (as_bytes ''PING'') = as_bytes ''PING''"
  by (simp_all add: to_ascii_uppercase_def ascii_upper_def byte_simps)

lemma u64_string_utf8 [simp]: "utf8_valid (u64_to_string n)" "utf8_valid (i64_to_string i)"
  by (simp_all add: u64_to_string_def i64_to_string_def)

lemma u16_from_to_string [simp]: "u16_from_str (nat_to_string (unat p)) = Some p"
  using unsigned_less [of p, where ?'a = nat] by (simp add: u16_from_str_def)

lemma omap_get_bytes [simp]: "omap (\<lambda>e. unwrap (get_bytes e)) (map BulkString cs) = Return cs"
  by (induction cs) simp_all

lemma wire_roundtrip:
  assumes "wire_ok c"
  obtains r where "to_resp c = Return (Some r)" and "from_resp r = decoded c"
proof (cases c)
  case (Set k v ex px)
  with assms that show ?thesis
    by (cases ex; cases px)
      (auto simp: wire_ok_def to_resp_def key_to_str_def expiry_args_def from_resp_arm set_from_resp_def)
next
  case (Ping m)
  with that show ?thesis
    by (cases m) (auto simp: to_resp_def from_resp_arm)
qed (use assms that in \<open>auto simp: wire_ok_def to_resp_def from_resp_arm bytes_args_def slice_from_def\<close>)

lemma to_resp_wire: "to_resp c = Return (Some r) \<Longrightarrow> decoded_ok c \<Longrightarrow> wire_ok c"
  by (cases c) (auto simp: to_resp_def wire_ok_def decoded_ok_def key_to_str_def from_utf8_def split: if_splits)


text \<open>A command that is encoded within the sizes that RESP can carry.\<close>

definition travels :: "command \<Rightarrow> bool" where
  "travels cmd \<longleftrightarrow> wire_ok cmd \<and> (case to_resp cmd of Return (Some r) \<Rightarrow> resp_ok r | _ \<Rightarrow> False)"

text \<open>\<open>to_resp\<close> panics on a \<open>SET\<close> whose key is not UTF-8, and only there.\<close>

lemma to_resp_panics:
  "to_resp c = Panic p \<longleftrightarrow> p = UnwrapPanic \<and> (case c of Set k _ _ _ \<Rightarrow> \<not> utf8_valid k | _ \<Rightarrow> False)"
  by (cases c) (auto simp: to_resp_def key_to_str_def from_utf8_def)

lemma replicatable_encodes: "is_replicatable c \<Longrightarrow> to_resp c \<noteq> Return None"
  by (cases c) (auto simp: is_replicatable_def to_resp_def key_to_str_def from_utf8_def)

section \<open>Stream ids\<close>

lemma next_sequence_number: "n \<noteq> - 1 \<Longrightarrow> (n :: u64) < n + 1"
proof -
  assume "n \<noteq> - 1"
  then have "1 + n \<noteq> 0"
    by (metis add_eq_0_iff)
  then have "unat (1 + n) = Suc (unat n)"
    by (rule unatSuc)
  then show ?thesis
    by (simp add: word_less_nat_alt add.commute)
qed

lemma next_stream_id_above:
  assumes "next_stream_id now ident s = Some i" and "\<forall>tid sid. ident \<noteq> XaddExplicit tid sid"
    and "bt_last s = Some (l, fvs)" and "snd l \<noteq> - 1"
  shows "l < i"
  using assms next_sequence_number [of "snd l"]
  by (cases l) (auto simp: next_stream_id_def Let_def less_prod_simp split: xadd_stream_id.splits if_splits)

section \<open>Properties\<close>

text \<open>
  C34. What decoding guarantees: a decoded command is never the internal transaction command,
  a \<open>SET\<close> never has two expiry times, \<open>RPUSH\<close> and \<open>LPUSH\<close> carry an element, \<open>XREAD\<close> has as many
  ids as keys.
\<close>

theorem decoding_guarantees:
  assumes "from_resp r = Return (Some c)"
  shows "decoded_ok c"
  using assms by (rule from_resp_sound)

lemma decoding_guarantees_witness:
  "decoded_ok (Rpush [107] [[118]])"
  by (rule decoding_guarantees [of "Array [bulk_string ''rpush'', BulkString [107], BulkString [118]]"])
    (simp add: from_resp_arm push_from_resp_def bytes_args_def slice_from_def to_ascii_uppercase_def
      ascii_upper_def byte_simps)

text \<open>
  Replication and the append-only file preserve commands: a command decoded from a client
  and encoded again for a replica or the file is decoded there as the same command.
\<close>

theorem replicated_command_preserved:
  assumes "from_resp r = Return (Some c)" and "to_resp c = Return (Some r')"
  shows "from_resp r' = Return (Some c)"
proof -
  have "wire_ok c"
    using assms(2) from_resp_sound [OF assms(1)] by (rule to_resp_wire)
  then show ?thesis
    using assms(2) wire_roundtrip [of c] by auto
qed

lemma replicated_command_preserved_witness:
  "from_resp (Array [bulk_string ''SET'', BulkString [107], BulkString [118], bulk_string ''PX'', BulkString (u64_to_string 9)])
   = Return (Some (Set [107] [118] None (Some 9)))"
  by (rule replicated_command_preserved
      [of "Array [bulk_string ''set'', BulkString [107], BulkString [118], bulk_string ''px'', BulkString (u64_to_string 9)]"])
    (simp_all add: from_resp_arm set_from_resp_def to_resp_def key_to_str_def expiry_args_def
      to_ascii_uppercase_def ascii_upper_def byte_simps)

text \<open>
  Encoding: every command that is replicated has an encoding, and encoding a command panics
  exactly for a \<open>SET\<close> whose key is not UTF-8 (any client can send one).
\<close>

theorem to_resp_outcome:
  "(\<not> is_replicatable c \<or> to_resp c \<noteq> Return None)
   \<and> (to_resp c = Panic p \<longleftrightarrow> p = UnwrapPanic \<and> (case c of Set k _ _ _ \<Rightarrow> \<not> utf8_valid k | _ \<Rightarrow> False))"
  using replicatable_encodes [of c] to_resp_panics [of c p] by blast

lemma to_resp_outcome_witness:
  "to_resp (Set [255] [] None None) = Panic UnwrapPanic \<and> to_resp ReplconfGetAck \<noteq> Return None"
  using to_resp_outcome [of "Set [255] [] None None" UnwrapPanic] to_resp_outcome [of ReplconfGetAck UnwrapPanic]
  by (simp add: is_replicatable_def)

text \<open>
  Generated stream ids only grow: the id that \<open>*\<close> or \<open><ms>-*\<close> stands for is above the last
  id of the stream, unless its sequence number is the largest one.
\<close>

theorem generated_id_above_last:
  assumes "next_stream_id now ident s = Some i" and "\<forall>tid sid. ident \<noteq> XaddExplicit tid sid"
    and "bt_last s = Some (l, fvs)" and "snd l \<noteq> - 1"
  shows "l < i"
  using assms by (rule next_stream_id_above)

lemma generated_id_above_last_witness: "((5, 6) :: stream_key) < (5, 7)"
  by (rule generated_id_above_last [of 5 AugoGen "[((5, 6), [])]" _ _ "[]"])
    (simp_all add: next_stream_id_def bt_last_def)

end
