(* ===== verification/PubSub.thy ===== *)
theory PubSub
  imports Collections
begin

text \<open>\<open>pubsub.rs\<close>: the subscribers of each channel.\<close>

type_synonym client_id = nat

record pub_sub =
  subscriptions :: "(bytes, client_id hashset) hashmap"

definition pubsub_new :: pub_sub where
  "pubsub_new = \<lparr>subscriptions = []\<rparr>"

definition add_subscription :: "client_id \<Rightarrow> bytes \<Rightarrow> pub_sub \<Rightarrow> pub_sub" where
  "add_subscription c channel p =
     p\<lparr>subscriptions := hm_modify_or channel (hs_insert c) [c] (subscriptions p)\<rparr>"

definition get_client_subscriptions :: "client_id \<Rightarrow> pub_sub \<Rightarrow> nat" where
  "get_client_subscriptions c p = length (filter (\<lambda>(_, clients). c \<in> set clients) (subscriptions p))"

definition subscribers_count :: "bytes \<Rightarrow> pub_sub \<Rightarrow> nat" where
  "subscribers_count channel p =
     (case hm_get (subscriptions p) channel of Some cs \<Rightarrow> length cs | None \<Rightarrow> 0)"

definition unsubscribe :: "client_id \<Rightarrow> bytes \<Rightarrow> pub_sub \<Rightarrow> pub_sub" where
  "unsubscribe c channel p =
     p\<lparr>subscriptions := hm_modify channel (hs_remove c) (subscriptions p)\<rparr>"

end
