(* ===== verification/SortedSets.thy ===== *)
theory SortedSets
  imports Collections Float64
begin

text \<open>
  \<open>sorted_sets.rs\<close>: sorted sets of members ordered by score, then by member. \<open>SafeFloat\<close>
  orders scores with \<open>total_cmp\<close>.
\<close>

section \<open>Scores\<close>

datatype safe_float = SafeFloat (score_bits: f64)

instantiation safe_float :: linorder
begin

definition less_eq_safe_float :: "safe_float \<Rightarrow> safe_float \<Rightarrow> bool" where
  "less_eq_safe_float a b \<longleftrightarrow> total_key (score_bits a) \<le> total_key (score_bits b)"

definition less_safe_float :: "safe_float \<Rightarrow> safe_float \<Rightarrow> bool" where
  "less_safe_float a b \<longleftrightarrow> total_key (score_bits a) < total_key (score_bits b)"

instance
proof
  fix a b :: safe_float
  show "a \<le> b \<Longrightarrow> b \<le> a \<Longrightarrow> a = b"
    by (cases a; cases b) (simp add: less_eq_safe_float_def total_key_inject)
qed (auto simp: less_eq_safe_float_def less_safe_float_def)

end

section \<open>Operations\<close>

type_synonym zset = "(safe_float \<times> bytes) list"
type_synonym zsets = "(bytes, zset) hashmap"

text \<open>The loop over the set that looks for a member.\<close>

definition find_member :: "bytes \<Rightarrow> zset \<Rightarrow> safe_float option" where
  "find_member member s = map_option fst (List.find (\<lambda>e. snd e = member) s)"

definition zs_get :: "zsets \<Rightarrow> bytes \<Rightarrow> zset" where
  "zs_get d k = (case hm_get d k of Some s \<Rightarrow> s | None \<Rightarrow> [])"

definition zs_insert :: "zsets \<Rightarrow> bytes \<Rightarrow> f64 \<Rightarrow> bytes \<Rightarrow> zsets \<times> nat" where
  "zs_insert d k score member =
     (let d = hm_or_insert k [] d;
          s = zs_get d k;
          prev_score_key = find_member member s;
          s = (case prev_score_key of Some prev \<Rightarrow> bs_remove (prev, member) s | None \<Rightarrow> s);
          s = bs_insert (SafeFloat score, member) s
      in (hm_insert k s d, case prev_score_key of Some _ \<Rightarrow> 0 | None \<Rightarrow> 1))"

primrec rank_from :: "u64 \<Rightarrow> bytes \<Rightarrow> zset \<Rightarrow> u64 option" where
  "rank_from r member [] = None"
| "rank_from r member (e # s) =
     (if snd e = member then Some r else rank_from (r + 1) member s)"

definition zs_rank :: "zsets \<Rightarrow> bytes \<Rightarrow> bytes \<Rightarrow> u64 option" where
  "zs_rank d k member =
     (case hm_get d k of Some s \<Rightarrow> rank_from 0 member s | None \<Rightarrow> None)"

definition zs_range :: "zsets \<Rightarrow> bytes \<Rightarrow> i32 \<Rightarrow> i32 \<Rightarrow> bytes list" where
  "zs_range d k start stop =
     (let len = (case hm_get d k of Some s \<Rightarrow> word_of_nat (length s) | None \<Rightarrow> 0);
          (a, b) = range_bounds start stop len
      in if sint b < sint a then []
         else case hm_get d k of
             Some s \<Rightarrow>
               map (snd \<circ> snd)
                 (filter (\<lambda>(i, _). sint a \<le> sint (word_of_nat i :: i32) \<and> sint (word_of_nat i :: i32) \<le> sint b)
                   (enumerate 0 s))
           | None \<Rightarrow> [])"

definition zs_card :: "zsets \<Rightarrow> bytes \<Rightarrow> nat" where
  "zs_card d k = (case hm_get d k of Some s \<Rightarrow> length s | None \<Rightarrow> 0)"

definition zs_score :: "zsets \<Rightarrow> bytes \<Rightarrow> bytes \<Rightarrow> f64 option" where
  "zs_score d k member =
     (case hm_get d k of
        Some s \<Rightarrow> map_option score_bits (find_member member s)
      | None \<Rightarrow> None)"

definition zs_rem :: "zsets \<Rightarrow> bytes \<Rightarrow> bytes \<Rightarrow> zsets \<times> nat" where
  "zs_rem d k member =
     (case zs_score d k member of
        Some score \<Rightarrow> (hm_modify k (bs_remove (SafeFloat score, member)) d, 1)
      | None \<Rightarrow> (d, 0))"

section \<open>The invariant\<close>

text \<open>A set is in ascending order, and has one entry per member.\<close>

definition zset_wf :: "zset \<Rightarrow> bool" where
  "zset_wf s \<longleftrightarrow> bs_wf s \<and> distinct (map snd s)"

definition zsets_wf :: "zsets \<Rightarrow> bool" where
  "zsets_wf d \<longleftrightarrow> hm_wf d \<and> (\<forall>s \<in> snd ` set d. zset_wf s)"

lemma find_member_Some_iff:
  "distinct (map snd s) \<Longrightarrow> find_member m s = Some v \<longleftrightarrow> (v, m) \<in> set s"
  by (induction s) (auto simp: find_member_def intro: rev_image_eqI)

lemma find_member_None_iff: "find_member m s = None \<longleftrightarrow> m \<notin> snd ` set s"
  by (induction s) (auto simp: find_member_def)

lemma find_member_eqI:
  "distinct (map snd s) \<Longrightarrow> distinct (map snd t) \<Longrightarrow>
   (\<And>v. (v, m) \<in> set s \<longleftrightarrow> (v, m) \<in> set t) \<Longrightarrow> find_member m s = find_member m t"
  by (metis find_member_Some_iff not_Some_eq)

lemma distinct_snd_iff:
  "bs_wf s \<Longrightarrow> distinct (map snd s) \<longleftrightarrow> (\<forall>v w m. (v, m) \<in> set s \<longrightarrow> (w, m) \<in> set s \<longrightarrow> v = w)"
  using bs_wf_distinct [of s] by (fastforce simp: distinct_map inj_on_def)

section \<open>One set as a map from members to scores\<close>

definition zset_put :: "bytes \<Rightarrow> safe_float \<Rightarrow> zset \<Rightarrow> zset" where
  "zset_put m v s =
     bs_insert (v, m) (case find_member m s of Some prev \<Rightarrow> bs_remove (prev, m) s | None \<Rightarrow> s)"

definition zset_drop :: "bytes \<Rightarrow> zset \<Rightarrow> zset" where
  "zset_drop m s = (case find_member m s of Some prev \<Rightarrow> bs_remove (prev, m) s | None \<Rightarrow> s)"

lemma set_zset_drop:
  assumes "zset_wf s"
  shows "set (zset_drop m s) = {e \<in> set s. snd e \<noteq> m}"
proof (cases "find_member m s")
  case None
  then have "\<forall>e \<in> set s. snd e \<noteq> m"
    by (auto simp: find_member_None_iff)
  with None show ?thesis
    by (auto simp: zset_drop_def)
next
  case (Some prev)
  moreover have "distinct (map snd s)" "bs_wf s"
    using assms by (simp_all add: zset_wf_def)
  ultimately have only: "v = prev" if "(v, m) \<in> set s" for v
    using that find_member_Some_iff [of s m] by (metis option.inject)
  have "set s - {(prev, m)} = {e \<in> set s. snd e \<noteq> m}" if "(prev, m) \<in> set s"
    using that by (auto dest: only)
  moreover have "(prev, m) \<in> set s"
    using Some \<open>distinct (map snd s)\<close> by (simp add: find_member_Some_iff)
  ultimately show ?thesis
    using Some by (simp add: zset_drop_def)
qed

lemma zset_put_eq: "zset_put m v s = bs_insert (v, m) (zset_drop m s)"
  by (simp add: zset_put_def zset_drop_def)

lemma zset_wf_drop [simp]:
  assumes "zset_wf s"
  shows "zset_wf (zset_drop m s)"
proof -
  have "bs_wf (zset_drop m s)"
    using assms by (simp add: zset_drop_def zset_wf_def split: option.splits)
  then show ?thesis
    using assms by (auto simp: zset_wf_def distinct_snd_iff set_zset_drop)
qed

lemma zset_wf_put [simp]:
  assumes "zset_wf s"
  shows "zset_wf (zset_put m v s)"
proof -
  have "bs_wf (zset_put m v s)"
    using zset_wf_drop [OF assms] by (simp add: zset_put_eq zset_wf_def)
  then show ?thesis
    using assms by (auto simp: zset_wf_def distinct_snd_iff zset_put_eq set_zset_drop)
qed

interpretation zset: dictionary "\<lambda>s m. find_member m s" zset_put zset_drop "[]" zset_wf
proof
  fix s :: zset and m m' :: bytes and v :: safe_float
  assume wf: "zset_wf s"
  show "find_member m' (zset_put m v s) = (if m' = m then Some v else find_member m' s)"
    using wf zset_wf_put [OF wf, of m v]
    by (auto simp: zset_wf_def find_member_Some_iff zset_put_eq set_zset_drop intro!: find_member_eqI)
  show "find_member m' (zset_drop m s) = (if m' = m then None else find_member m' s)"
    using wf zset_wf_drop [OF wf, of m]
    by (auto simp: zset_wf_def find_member_None_iff set_zset_drop intro!: find_member_eqI)
qed (simp_all add: find_member_def, simp add: zset_wf_def)

section \<open>All sets\<close>

lemma zset_wf_get: "zsets_wf d \<Longrightarrow> zset_wf (zs_get d k)"
  by (force simp: zs_get_def zsets_wf_def zset_wf_def dest: hm_get_mem split: option.splits)

lemma zsets_wf_insert: "zsets_wf d \<Longrightarrow> zset_wf s \<Longrightarrow> zsets_wf (hm_insert k s d)"
  by (auto simp: zsets_wf_def mem_hm_insert)

lemma zs_score_eq: "zs_score d k m = map_option score_bits (find_member m (zs_get d k))"
  by (simp add: zs_score_def zs_get_def find_member_def split: option.splits)

lemma zs_insert_eq:
  "zs_insert d k v m =
     (hm_insert k (zset_put m (SafeFloat v) (zs_get d k)) (hm_or_insert k [] d),
      if zs_score d k m = None then 1 else 0)"
proof -
  have "zs_get (hm_or_insert k [] d) k = zs_get d k"
    by (simp add: zs_get_def map_simps split: option.splits)
  then show ?thesis
    by (simp add: zs_insert_def zset_put_def zs_score_eq Let_def split: option.splits)
qed

lemma hm_or_insert_zsets_wf: "zsets_wf d \<Longrightarrow> zsets_wf (hm_or_insert k [] d)"
  by (auto simp: hm_or_insert_def zset_wf_def intro!: zsets_wf_insert split: option.splits)

lemma zs_get_insert:
  "zs_get (fst (zs_insert d k v m)) k' = (if k' = k then zset_put m (SafeFloat v) (zs_get d k) else zs_get d k')"
  by (simp add: zs_insert_eq zs_get_def map_simps)

lemma zsets_wf_zs_insert: "zsets_wf d \<Longrightarrow> zsets_wf (fst (zs_insert d k v m))"
  by (simp add: zs_insert_eq zsets_wf_insert hm_or_insert_zsets_wf zset_wf_get)

lemma zs_get_rem:
  "zs_get (fst (zs_rem d k m)) k' = (if k' = k then zset_drop m (zs_get d k) else zs_get d k')"
proof (cases "hm_get d k")
  case None
  then show ?thesis
    by (simp add: zs_rem_def zs_score_def zs_get_def zset_drop_def find_member_def)
next
  case (Some s)
  then show ?thesis
    by (cases "find_member m s") (auto simp: zs_rem_def zs_score_def zs_get_def zset_drop_def map_simps)
qed

lemma snd_zs_rem: "snd (zs_rem d k m) = (if zs_score d k m = None then 0 else 1)"
  by (simp add: zs_rem_def split: option.splits)

lemma zsets_wf_modify: "zsets_wf d \<Longrightarrow> (\<And>s. zset_wf s \<Longrightarrow> zset_wf (f s)) \<Longrightarrow> zsets_wf (hm_modify k f d)"
  by (auto simp: zsets_wf_def) (auto simp: hm_modify_def)

lemma zsets_wf_zs_rem: "zsets_wf d \<Longrightarrow> zsets_wf (fst (zs_rem d k m))"
proof (cases "zs_score d k m")
  case (Some v)
  assume wf: "zsets_wf d"
  have "zset_wf (bs_remove e s)" if "zset_wf s" for e s
    using that by (simp add: zset_wf_def bs_remove_def distinct_map_filter) (simp add: bs_wf_def sorted_wrt_filter)
  with wf Some show ?thesis
    by (simp add: zs_rem_def zsets_wf_modify)
qed (simp add: zs_rem_def)

text \<open>The rank of a member is the number of entries below its own.\<close>

lemma rank_from_eq:
  "rank_from r m s =
     (if m \<in> snd ` set s then Some (r + word_of_nat (length (takeWhile (\<lambda>e. snd e \<noteq> m) s))) else None)"
  by (induction s arbitrary: r) (auto simp: image_iff algebra_simps)

lemma entries_below:
  assumes "zset_wf s" and "(v, m) \<in> set s"
  shows "takeWhile (\<lambda>e. snd e \<noteq> m) s = filter (\<lambda>e. e < (v, m)) s"
  using assms
proof (induction s)
  case (Cons e s)
  have wf: "zset_wf s" and above: "\<forall>x \<in> set s. e < x" and fresh: "snd e \<notin> snd ` set s"
    using Cons.prems(1) by (auto simp: zset_wf_def bs_wf_def)
  show ?case
  proof (cases "snd e = m")
    case True
    with Cons.prems fresh have "e = (v, m)"
      by (auto intro: rev_image_eqI)
    moreover from this above have "filter (\<lambda>x. x < (v, m)) s = []"
      by (auto simp: filter_empty_conv dest: less_asym)
    ultimately show ?thesis
      by simp
  next
    case False
    with Cons.prems(2) have mem: "(v, m) \<in> set s"
      by auto
    with above False Cons.IH [OF wf mem] show ?thesis
      by simp
  qed
qed simp

lemma nth_takeWhile_member:
  "m \<in> snd ` set s \<Longrightarrow> length (takeWhile (\<lambda>e. snd e \<noteq> m) s) < length s
     \<and> snd (s ! length (takeWhile (\<lambda>e. snd e \<noteq> m) s)) = m"
  by (induction s) auto


section \<open>Ranges\<close>

lemma filter_enumerate_range:
  "map snd (filter (\<lambda>(i, _). a \<le> i \<and> i \<le> b) (enumerate n s)) = take (Suc b - max a n) (drop (a - n) s)"
proof (induction s arbitrary: n)
  case (Cons x s)
  show ?case
  proof (cases "a \<le> n")
    case True
    with Cons [of "Suc n"] show ?thesis
      by (auto simp: max_def take_Cons')
  next
    case False
    then have "max a (Suc n) = max a n" "drop (a - n) (x # s) = drop (a - Suc n) s"
      by (auto simp: drop_Cons' Suc_diff_Suc)
    with Cons [of "Suc n"] False show ?thesis
      by simp
  qed
qed simp

lemma zset_length: "zset_wf s \<Longrightarrow> length s = card (set s)"
  by (simp add: zset_wf_def bs_wf_distinct distinct_card)

lemma member_entry:
  assumes "zset_wf s" and "find_member m s = Some w"
  shows "set s = insert (w, m) {e \<in> set s. snd e \<noteq> m}"
proof -
  have d: "distinct (map snd s)"
    using assms(1) by (simp add: zset_wf_def)
  have only: "v = w" if "(v, m) \<in> set s" for v
    using that assms(2) find_member_Some_iff [OF d, of m v] by simp
  have "(w, m) \<in> set s"
    using assms(2) find_member_Some_iff [OF d] by simp
  then show ?thesis
    by (auto dest: only)
qed

lemma length_zset_put:
  assumes "zset_wf s"
  shows "length (zset_put m v s) = length s + (if find_member m s = None then 1 else 0)"
proof -
  have put: "set (zset_put m v s) = insert (v, m) {e \<in> set s. snd e \<noteq> m}"
    using assms by (simp add: zset_put_eq set_zset_drop)
  have "card (set (zset_put m v s)) = Suc (card {e \<in> set s. snd e \<noteq> m})"
    unfolding put by (rule card_insert_disjoint) auto
  moreover have "card (set s) = card {e \<in> set s. snd e \<noteq> m} + (if find_member m s = None then 0 else 1)"
  proof (cases "find_member m s")
    case None
    then have "{e \<in> set s. snd e \<noteq> m} = set s"
      by (auto simp: find_member_None_iff)
    with None show ?thesis
      by simp
  next
    case (Some w)
    then have "set s = insert (w, m) {e \<in> set s. snd e \<noteq> m}"
      using assms member_entry by blast
    moreover have "card (insert (w, m) {e \<in> set s. snd e \<noteq> m}) = Suc (card {e \<in> set s. snd e \<noteq> m})"
      by (rule card_insert_disjoint) auto
    ultimately show ?thesis
      using Some by simp
  qed
  ultimately show ?thesis
    using assms by (simp add: zset_length)
qed

lemma zs_card_eq: "zs_card d k = length (zs_get d k)"
  by (simp add: zs_card_def zs_get_def split: option.splits)

lemma zs_rank_eq: "zs_rank d k m = rank_from 0 m (zs_get d k)"
  by (simp add: zs_rank_def zs_get_def split: option.splits)

lemma zs_range_eq:
  fixes start stop :: i32
  assumes "zs_card d k < 2 ^ 31"
  defines "lo \<equiv> max 0 (resolve_index start (zs_card d k))"
    and "hi \<equiv> min (int (zs_card d k) - 1) (resolve_index stop (zs_card d k))"
  shows "zs_range d k start stop =
    (if hi < lo then [] else map snd (take (nat (hi - lo) + 1) (drop (nat lo) (zs_get d k))))"
proof -
  define s where "s = zs_get d k"
  have len: "length s < 2 ^ 31" and card: "zs_card d k = length s"
    using assms(1) by (simp_all add: s_def zs_card_eq)
  obtain a b where ab: "range_bounds start stop (word_of_nat (length s)) = (a, b)"
    by fastforce
  have a: "sint a = lo" and b: "sint b = hi"
    using range_bounds_int [OF len ab] by (simp_all add: lo_def hi_def card)
  have "zs_range d k start stop = (if hi < lo then [] else
      map (snd \<circ> snd) (filter (\<lambda>(i, _). lo \<le> sint (word_of_nat i :: i32) \<and> sint (word_of_nat i :: i32) \<le> hi)
         (enumerate 0 s)))"
    using ab by (auto simp: zs_range_def s_def zs_get_def a b split: option.splits)
  also have "\<dots> = (if hi < lo then [] else map snd (take (nat (hi - lo) + 1) (drop (nat lo) s)))"
  proof (cases "hi < lo")
    case False
    have "0 \<le> lo"
      by (simp add: lo_def)
    have "filter (\<lambda>(i, _). lo \<le> sint (word_of_nat i :: i32) \<and> sint (word_of_nat i :: i32) \<le> hi) (enumerate 0 s)
        = filter (\<lambda>(i, _). nat lo \<le> i \<and> i \<le> nat hi) (enumerate 0 s)"
      using len False \<open>0 \<le> lo\<close> by (intro filter_cong) (auto simp: in_set_enumerate_eq sint_small_nat)
    moreover have "Suc (nat hi) - nat lo = nat (hi - lo) + 1"
      using False \<open>0 \<le> lo\<close> by simp
    ultimately show ?thesis
      using filter_enumerate_range [of "nat lo" "nat hi" 0 s] False
      by (simp add: list.map_comp [symmetric] del: list.map_comp)
  qed simp
  finally show ?thesis
    by (simp add: s_def)
qed

section \<open>Properties\<close>

text \<open>
  C37. \<open>ZADD\<close> refines the update of a map from members to scores: the invariant of the sorted
  sets is kept, the member has the new score, no other score of any set changes, and the
  result (and the growth of the set) is one exactly when the member is new.
\<close>

theorem zadd_refines_update:
  assumes "zsets_wf d" and "zs_insert d k v m = (d', n)"
  shows "zsets_wf d'
    \<and> zs_score d' k' m' = (if k' = k \<and> m' = m then Some v else zs_score d k' m')
    \<and> n = (if zs_score d k m = None then 1 else 0)
    \<and> zs_card d' k = zs_card d k + n"
proof -
  have d': "d' = fst (zs_insert d k v m)" and n: "n = snd (zs_insert d k v m)"
    using assms(2) by simp_all
  have wf: "zset_wf (zs_get d k)"
    using assms(1) by (rule zset_wf_get)
  show ?thesis
    using assms(1) wf
    by (simp add: d' n zsets_wf_zs_insert zs_score_eq zs_get_insert zset.get_ins zs_card_eq length_zset_put)
      (simp add: zs_insert_eq zs_score_eq)
qed

lemma zadd_refines_update_witness:
  "zsets_wf [([1], [(SafeFloat 0, [7])])] \<and> zs_score [([1], [(SafeFloat 0, [7])])] [1] [7] = Some 0"
  using zadd_refines_update [of "[]" "[1]" 0 "[7]" "[([1], [(SafeFloat 0, [7])])]" 1 "[1]" "[7]"]
  by (simp add: zsets_wf_def zs_insert_def hm_or_insert_def zs_get_def hm_get_def find_member_def)

text \<open>
  \<open>ZREM\<close> refines deletion from that map: the invariant is kept, the member has no score
  afterwards, nothing else changes, and the result says whether it was there.
\<close>

theorem zrem_refines_delete:
  assumes "zsets_wf d" and "zs_rem d k m = (d', n)"
  shows "zsets_wf d'
    \<and> zs_score d' k' m' = (if k' = k \<and> m' = m then None else zs_score d k' m')
    \<and> n = (if zs_score d k m = None then 0 else 1)"
proof -
  have d': "d' = fst (zs_rem d k m)" and n: "n = snd (zs_rem d k m)"
    using assms(2) by simp_all
  have "zset_wf (zs_get d k)"
    using assms(1) by (rule zset_wf_get)
  then show ?thesis
    using assms(1) by (simp add: d' n zsets_wf_zs_rem snd_zs_rem zs_score_eq zs_get_rem zset.get_del)
qed

lemma zrem_refines_delete_witness:
  "zsets_wf [([1], [])] \<and> zs_score [([1], [])] [1] [7] = None"
  using zrem_refines_delete [of "[([1], [(SafeFloat 0, [7])])]" "[1]" "[7]" "[([1], [])]" 1 "[1]" "[7]"]
  by (simp add: zsets_wf_def zset_wf_def bs_wf_def hm_wf_def zs_rem_def zs_score_def hm_get_def hm_modify_def
      find_member_def bs_remove_def)

text \<open>
  C38. \<open>ZRANK\<close> of a member that has a score is the number of entries of the set that come before
  it in the order of scores (by \<open>total_cmp\<close>), then of members.
\<close>

theorem zrank_counts_smaller:
  assumes "zsets_wf d" and "zs_score d k m = Some v" and "zs_card d k < 2 ^ 64"
  shows "\<exists>r. zs_rank d k m = Some r
    \<and> unat r = length (filter (\<lambda>e. e < (SafeFloat v, m)) (zs_get d k))"
proof -
  let ?s = "zs_get d k"
  have wf: "zset_wf ?s"
    using assms(1) by (rule zset_wf_get)
  then have "distinct (map snd ?s)"
    by (simp add: zset_wf_def)
  moreover have "find_member m ?s = Some (SafeFloat v)"
    using assms(2) by (auto simp: zs_score_eq)
  ultimately have mem: "(SafeFloat v, m) \<in> set ?s"
    by (simp add: find_member_Some_iff)
  have "length (filter (\<lambda>e. e < (SafeFloat v, m)) ?s) < 2 ^ 64"
    using assms(3) by (simp add: zs_card_eq le_less_trans [OF length_filter_le])
  moreover have "m \<in> snd ` set ?s"
    using mem by (rule rev_image_eqI) simp
  ultimately show ?thesis
    by (simp add: zs_rank_eq rank_from_eq entries_below [OF wf mem] unat_of_nat)
qed

lemma zrank_counts_smaller_witness:
  "\<exists>r. zs_rank [([1], [(SafeFloat 0, [7]), (SafeFloat 1, [3])])] [1] [3] = Some r \<and> unat r =
     length (filter (\<lambda>e. e < (SafeFloat 1, [3])) (zs_get [([1], [(SafeFloat 0, [7]), (SafeFloat 1, [3])])] [1]))"
proof -
  have "SafeFloat 0 < SafeFloat 1"
    unfolding less_safe_float_def safe_float.sel total_key_def by code_simp
  then show ?thesis
    by (intro zrank_counts_smaller)
      (simp_all add: zsets_wf_def zset_wf_def bs_wf_def hm_wf_def zs_score_def hm_get_def find_member_def
        zs_card_def less_prod_simp)
qed

text \<open>
  C39. \<open>ZRANGE\<close> returns the members from the first index to the last in ascending order, where
  negative indices count from the end and both ends are cut to the set.
\<close>

theorem zrange_is_slice:
  fixes start stop :: i32
  assumes "zs_card d k < 2 ^ 31"
    and "lo = max 0 (resolve_index start (zs_card d k))"
    and "hi = min (int (zs_card d k) - 1) (resolve_index stop (zs_card d k))"
  shows "zs_range d k start stop =
    (if hi < lo then [] else map snd (take (nat (hi - lo) + 1) (drop (nat lo) (zs_get d k))))"
  using zs_range_eq [OF assms(1)] assms(2,3) by simp

lemma zrange_is_slice_witness:
  "zs_range [([1], [(SafeFloat 0, [7]), (SafeFloat 1, [3])])] [1] (- 1) 5 =
   (if 1 < (1 :: int) then [] else map snd (take (nat (1 - 1) + 1) (drop (nat 1)
      (zs_get [([1], [(SafeFloat 0, [7]), (SafeFloat 1, [3])])] [1]))))"
  by (rule zrange_is_slice) (simp_all add: zs_card_def hm_get_def resolve_index_def)

end
