(* ===== verification/Rdb.thy ===== *)
theory Rdb
  imports Collections Parser
begin

text \<open>
  \<open>rdb.rs\<close>: the RDB file, a header, metadata and the string keys of one database, with
  their expiry. The iteration order of the two hash maps is the argument \<open>ord\<close> of
  \<open>serialize\<close>.
\<close>

section \<open>Values\<close>

datatype rdb_value_expiration = NoExpiration | Seconds u32 | Milliseconds u64

record rdb_string =
  encoding :: u8
  rdb_value :: bytes
  expire :: rdb_value_expiration

record rdb =
  metadata :: "(bytes, bytes) hashmap"
  rdb_data :: "(key, rdb_string) hashmap"

definition rdb_new :: rdb where
  "rdb_new = \<lparr>metadata = [], rdb_data = []\<rparr>"

definition rdb_set :: "key \<Rightarrow> rdb_string \<Rightarrow> rdb \<Rightarrow> rdb" where
  "rdb_set k v r = r\<lparr>rdb_data := hm_insert k v (rdb_data r)\<rparr>"

section \<open>Writing\<close>

definition be_bytes32 :: "u32 \<Rightarrow> bytes" where
  "be_bytes32 w = [ucast (drop_bit 24 w), ucast (drop_bit 16 w), ucast (drop_bit 8 w), ucast w]"

definition le_bytes32 :: "u32 \<Rightarrow> bytes" where
  "le_bytes32 w = rev (be_bytes32 w)"

definition le_bytes64 :: "u64 \<Rightarrow> bytes" where
  "le_bytes64 w = map (\<lambda>i. ucast (drop_bit (8 * i) w)) [0..<8]"

definition le_encode_size :: "nat \<Rightarrow> bytes" where
  "le_encode_size n =
     (if n \<le> 63 then [word_of_nat n]
      else if n \<le> 16383 then [0x40 OR word_of_nat (n div 256), word_of_nat n]
      else 0x80 # be_bytes32 (word_of_nat n))"

definition le_encode_string :: "bytes \<Rightarrow> bytes" where
  "le_encode_string s = le_encode_size (length s) @ s"

definition serialize_string :: "key \<Rightarrow> rdb_string \<Rightarrow> bytes" where
  "serialize_string k v =
     (case expire v of
        NoExpiration \<Rightarrow> []
      | Milliseconds ms \<Rightarrow> 0xFC # le_bytes64 ms
      | Seconds secs \<Rightarrow> 0xFD # le_bytes32 secs)
     @ [encoding v]
     @ le_encode_size (length k) @ k
     @ le_encode_size (length (rdb_value v)) @ rdb_value v"

definition serialize :: "(bytes list \<Rightarrow> bytes list) \<Rightarrow> rdb \<Rightarrow> bytes" where
  "serialize ord r =
     as_bytes ''REDIS0011''
     @ concat (map (\<lambda>(k, v). 0xFA # le_encode_string k @ le_encode_string v) (hm_iter ord (metadata r)))
     @ (if rdb_data r = [] then []
        else [0xFE, 0x00, 0xFB]
          @ le_encode_size (length (rdb_data r))
          @ le_encode_size (length (filter (\<lambda>(_, v). expire v \<noteq> NoExpiration) (rdb_data r)))
          @ concat (map (\<lambda>(k, v). serialize_string k v) (hm_iter ord (rdb_data r))))
     @ 0xFF # replicate 8 0"

section \<open>Reading\<close>

definition from_le_bytes :: "bytes \<Rightarrow> 'a::len word" where
  "from_le_bytes bs = word_of_nat (foldr (\<lambda>b acc. unat b + 256 * acc) bs 0)"

text \<open>An entry without expiry, with milliseconds, or with seconds, tried in this order.\<close>

definition plain_entry :: "(key \<times> rdb_string) parser" where
  "plain_entry input =
     pbind (and3 (byte 0x00) le_bytes le_bytes input) (\<lambda>(enc, k, v) rest.
       POk (k, \<lparr>encoding = enc, rdb_value = v, expire = NoExpiration\<rparr>) rest)"

definition ms_entry :: "(key \<times> rdb_string) parser" where
  "ms_entry input =
     pbind (and5 (byte 0xFC) (take_bytes 8) (byte 0x00) le_bytes le_bytes input)
       (\<lambda>(_, t, enc, k, v) rest.
         POk (k, \<lparr>encoding = enc, rdb_value = v, expire = Milliseconds (from_le_bytes t)\<rparr>) rest)"

definition secs_entry :: "(key \<times> rdb_string) parser" where
  "secs_entry input =
     pbind (and5 (byte 0xFD) (take_bytes 4) (byte 0x00) le_bytes le_bytes input)
       (\<lambda>(_, t, enc, k, v) rest.
         POk (k, \<lparr>encoding = enc, rdb_value = v, expire = Seconds (from_le_bytes t)\<rparr>) rest)"

definition parse_rdb_entry :: "(key \<times> rdb_string) parser" where
  "parse_rdb_entry input =
     (case or3 plain_entry ms_entry secs_entry input of
        PErr _ \<Rightarrow> PErr RdbEntryNotFound
      | r \<Rightarrow> r)"

definition parse_db_subsection :: "(key \<times> rdb_string) list parser" where
  "parse_db_subsection input =
     pbind (byte 0xFE input) (\<lambda>_ rest.
     pbind (le_integer rest) (\<lambda>_ rest.
     pbind (byte 0xFB rest) (\<lambda>_ rest.
     pbind (le_integer rest) (\<lambda>_ rest.
     pbind (le_integer rest) (\<lambda>_ rest.
       many0 parse_rdb_entry rest)))))"

definition parse_metadata_subsection :: "(bytes \<times> bytes) parser" where
  "parse_metadata_subsection input =
     pbind (byte 0xFA input) (\<lambda>_ rest. and2 le_string le_string rest)"

text \<open>\<open>unwrap\<close> of a parse result.\<close>

definition punwrap :: "'a presult \<Rightarrow> 'a presult" where
  "punwrap r = (case r of PErr _ \<Rightarrow> PPanic UnwrapPanic | _ \<Rightarrow> r)"

definition deserialize :: "bytes \<Rightarrow> rdb presult" where
  "deserialize input =
     pbind (punwrap (and2 (tag_str (as_bytes ''REDIS'')) (take_bytes 4) input)) (\<lambda>_ input.
     pbind (punwrap (many0 parse_metadata_subsection input)) (\<lambda>metadata_sub_sections input.
     pbind (punwrap (many0 parse_db_subsection input)) (\<lambda>db_sub_sections input.
     pbind (punwrap (byte 0xFF input)) (\<lambda>_ input.
     pbind (punwrap (take_bytes 8 input)) (\<lambda>_ rest.
       POk \<lparr>metadata = hm_collect metadata_sub_sections,
            rdb_data = hm_collect (concat db_sub_sections)\<rparr> rest)))))"

section \<open>Sizes and integers\<close>

lemma le_first_small: "\<forall>n \<in> set [0..<64]. drop_bit 6 ((word_of_nat n :: u8) AND 0xC0) = 0
    \<and> (word_of_nat n :: u8) AND 0x3F = word_of_nat n"
  by code_simp

lemma le_first_medium: "\<forall>n \<in> set [0..<64]. drop_bit 6 ((0x40 OR word_of_nat n :: u8) AND 0xC0) = 1
    \<and> (0x40 OR word_of_nat n :: u8) AND 0x3F = word_of_nat n"
  by code_simp

lemma bit_nat_bound: "(n :: nat) < 2 ^ k \<Longrightarrow> bit n i \<Longrightarrow> i < k"
  by (metis bit_take_bit_iff take_bit_nat_eq_self_iff)

lemma le_medium_value:
  assumes "n < 2 ^ 14"
  shows "push_bit 8 (ucast (word_of_nat (n div 256) :: u8)) OR ucast (word_of_nat n :: u8) = (word_of_nat n :: u64)"
proof (rule bit_word_eqI)
  fix i :: nat
  have n: "n div 256 = drop_bit 8 n"
    by (simp add: drop_bit_eq_div)
  show "bit (push_bit 8 (ucast (word_of_nat (n div 256) :: u8)) OR ucast (word_of_nat n :: u8) :: u64) i
     = bit (word_of_nat n :: u64) i"
    using bit_nat_bound [OF assms, of i]
    by (cases "8 \<le> i") (auto simp: n bit_or_iff bit_push_bit_iff bit_unsigned_iff bit_of_nat_iff possible_bit_word bit_drop_bit_eq)
qed

lemma ucast_word_of_nat:
  "n < 2 ^ LENGTH('a) \<Longrightarrow> ucast (word_of_nat n :: 'a::len word) = (word_of_nat n :: u64)"
  by (rule bit_word_eqI) (auto simp: bit_unsigned_iff bit_of_nat_iff possible_bit_word intro: bit_nat_bound)

lemma be32_value: "be32_at_1 (b # be_bytes32 w @ rest) = ucast w"
proof (rule bit_word_eqI)
  fix i :: nat
  consider "i < 8" | "8 \<le> i" "i < 16" | "16 \<le> i" "i < 24" | "24 \<le> i" "i < 32" | "32 \<le> i"
    by linarith
  then show "bit (be32_at_1 (b # be_bytes32 w @ rest)) i = bit (ucast w :: u64) i"
    by cases (auto simp: be32_at_1_def byte_at_def be_bytes32_def bit_or_iff bit_push_bit_iff
        bit_unsigned_iff bit_drop_bit_eq dest: bit_imp_le_length)
qed

lemma from_le_digits:
  "foldr (\<lambda>b acc. unat b + 256 * acc) (map (\<lambda>i. ucast (drop_bit (8 * i) w) :: u8) [0..<k]) 0 = unat w mod 256 ^ k"
proof (induction k arbitrary: w)
  case (Suc k)
  have "map (\<lambda>i. ucast (drop_bit (8 * i) w) :: u8) [0..<Suc k] =
    ucast w # map (\<lambda>i. ucast (drop_bit (8 * i) (drop_bit 8 w))) [0..<k]"
    by (simp only: upt_conv_Cons zero_less_Suc map_Suc_upt [symmetric] list.map map_map o_def) (simp add: add.commute)
  moreover have "unat (drop_bit 8 w) = unat w div 256"
    by (simp only: unsigned_drop_bit_eq) (simp add: drop_bit_eq_div take_bit_nat_eq_self)
  moreover have "unat (ucast w :: u8) = unat w mod 256"
    by (simp add: unsigned_ucast_eq take_bit_eq_mod)
  ultimately show ?case
    using Suc.IH [of "drop_bit 8 w"] by (simp add: mod_mult2_eq)
qed simp

lemma from_le_bytes_64: "from_le_bytes (le_bytes64 w) = w"
proof -
  have "unat w mod 256 ^ 8 = unat w"
    using unsigned_less [of w, where ?'a = nat] by (intro mod_less) simp
  then show ?thesis
    by (simp add: from_le_bytes_def le_bytes64_def from_le_digits del: upt_rec_numeral)
qed

lemma from_le_bytes_32: "from_le_bytes (le_bytes32 w) = w"
proof -
  have "unat w mod 256 ^ 4 = unat w"
    using unsigned_less [of w, where ?'a = nat] by (intro mod_less) simp
  moreover have "le_bytes32 w = map (\<lambda>i. ucast (drop_bit (8 * i) w)) [0..<4]"
    by (simp add: le_bytes32_def be_bytes32_def upt_rec)
  ultimately show ?thesis
    by (simp add: from_le_bytes_def from_le_digits del: upt_rec_numeral)
qed

lemma length_be_bytes32 [simp]: "length (be_bytes32 w) = 4"
  by (simp add: be_bytes32_def)

lemma length_le_bytes [simp]: "length (le_bytes64 w) = 8" "length (le_bytes32 v) = 4"
  by (simp_all add: le_bytes64_def le_bytes32_def)

lemma le_slice_append:
  "length p = start \<Longrightarrow> le_slice start (length s) (p @ s @ rest) = POk s rest"
  by (auto simp: le_slice_def)

text \<open>Sizes up to \<open>2^32\<close>: the encoding is read back, whether as a number or before a string.\<close>

lemma le_size_cases:
  assumes "n < 2 ^ 32"
  obtains (small) "n < 64" "le_encode_size n = [word_of_nat n]"
  | (medium) "n < 2 ^ 14" "le_encode_size n = [0x40 OR word_of_nat (n div 256), word_of_nat n]"
  | (large) "le_encode_size n = 0x80 # be_bytes32 (word_of_nat n)"
  by (cases "n \<le> 63"; cases "n \<le> 16383") (auto simp: le_encode_size_def)

lemma le_integer_encode_size:
  assumes "n < 2 ^ 32"
  shows "le_integer (le_encode_size n @ rest) = POk (word_of_nat n) rest"
  using assms
proof (cases rule: le_size_cases)
  case small
  with le_first_small show ?thesis
    by (simp add: le_integer_def ucast_word_of_nat)
next
  case medium
  then have "n div 256 \<in> set [0..<64]"
    by (simp add: less_mult_imp_div_less del: upt_rec_numeral)
  with medium le_first_medium le_medium_value [OF medium(1)] show ?thesis
    by (simp add: le_integer_def byte_at_def Let_def)
next
  case large
  with assms show ?thesis
    using be32_value [of 128 "word_of_nat n" rest]
    by (simp add: le_integer_def Let_def ucast_word_of_nat)
qed

lemma le_bytes_encode_string:
  assumes "length s < 2 ^ 32"
  shows "le_bytes (le_encode_string s @ rest) = POk s rest"
  using assms
proof (cases rule: le_size_cases)
  case small
  with le_first_small show ?thesis
    using le_slice_append [of "[word_of_nat (length s)]" 1 s rest]
    by (simp add: le_bytes_def le_encode_string_def unat_of_nat)
next
  case medium
  then have "length s div 256 \<in> set [0..<64]"
    by (simp add: less_mult_imp_div_less del: upt_rec_numeral)
  with medium le_first_medium le_medium_value [OF medium(1)] show ?thesis
    using le_slice_append [of "[_, _]" 2 s rest]
    by (simp add: le_bytes_def le_encode_string_def byte_at_def Let_def unat_of_nat)
next
  case large
  with assms show ?thesis
    using be32_value [of 128 "word_of_nat (length s)" "s @ rest"]
      le_slice_append [of "128 # be_bytes32 (word_of_nat (length s))" 5 s rest]
    by (simp add: le_bytes_def le_encode_string_def Let_def unat_of_nat unsigned_ucast_eq take_bit_nat_eq_self unsigned_of_nat)
qed

section \<open>The parsers of the file\<close>

text \<open>\<open>le_string\<close> is \<open>le_bytes\<close> followed by the check that the bytes are UTF-8.\<close>

lemma le_string_eq:
  "le_string input =
     (case le_bytes input of
        POk b rest \<Rightarrow> if utf8_valid b then POk b rest else PPanic UnwrapPanic
      | PErr (LeBytesPrefix f) \<Rightarrow> PErr (LeStringPrefix f)
      | PErr e \<Rightarrow> PErr e
      | PPanic p \<Rightarrow> PPanic p
      | PLoop \<Rightarrow> PLoop)"
proof (cases "input = []")
  case True
  then show ?thesis
    by (simp add: le_string_def le_bytes_def)
next
  case False
  define first where "first = hd input"
  define kind where "kind = drop_bit 6 (first AND 0xC0)"
  have unwrapped: "utf8_unwrap r = (case r of
        POk b rest \<Rightarrow> if utf8_valid b then POk b rest else PPanic UnwrapPanic | _ \<Rightarrow> r)" for r
    by (cases r) (simp_all add: utf8_unwrap_def from_utf8_def)
  note both = le_string_def le_bytes_def Let_def first_def [symmetric] kind_def [symmetric]
  consider "kind = 0" | "kind = 1" | "kind = 2" | "kind \<notin> {0, 1, 2}"
    by blast
  then show ?thesis
    by cases (use False in \<open>simp_all only: both if_False if_True unwrapped le_slice_def,
      simp_all split: if_splits\<close>)
qed

lemma le_string_encode_string:
  "length s < 2 ^ 32 \<Longrightarrow> utf8_valid s \<Longrightarrow> le_string (le_encode_string s @ rest) = POk s rest"
  by (simp add: le_string_eq le_bytes_encode_string)

lemma strict_suffix_drop: "0 < n \<Longrightarrow> input \<noteq> [] \<Longrightarrow> strict_suffix (drop n input) input"
  by (metis diff_less length_drop length_greater_0_conv less_irrefl strict_suffix_def suffix_drop)

lemma consumes_le [parser_intros]: "consumes le_integer" "consumes le_bytes" "consumes le_string"
proof -
  show bytes: "consumes le_bytes"
    by (rule consumesI) (auto simp: le_bytes_def le_slice_def Let_def split: if_splits intro!: strict_suffix_drop)
  show "consumes le_integer"
    by (rule consumesI) (auto simp: le_integer_def Let_def split: if_splits intro!: strict_suffix_drop)
  show "consumes le_string"
    by (rule consumesI)
      (auto simp: le_string_eq split: presult.splits if_splits parse_error.splits intro: consumesD [OF bytes])
qed

lemma slices_le [parser_intros]: "slices le_integer" "slices le_bytes" "slices le_string"
  by (intro consumes_slices consumes_le)+

lemma ends_le [parser_intros]: "ends le_integer" "ends le_bytes" "ends le_string"
proof -
  show bytes: "ends le_bytes"
    by (rule endsI) (simp add: le_bytes_def le_slice_def Let_def)
  show "ends le_integer"
    by (rule endsI) (simp add: le_integer_def Let_def)
  show "ends le_string"
    by (rule endsI) (use bytes in \<open>simp add: le_string_eq split: presult.splits parse_error.splits\<close>)
qed

lemma consumes_and5 [parser_intros]:
  assumes "consumes p1" "slices p2" "slices p3" "slices p4" "slices p5"
  shows "consumes (and5 p1 p2 p3 p4 p5)"
proof (rule consumesI)
  fix input a rest
  assume "and5 p1 p2 p3 p4 p5 input = POk a rest"
  then show "strict_suffix rest input"
    using consumesD [OF assms(1)] slicesD [OF assms(2)] slicesD [OF assms(3)] slicesD [OF assms(4)]
      slicesD [OF assms(5)]
    unfolding and5_def by (clarsimp split: prod.splits) (meson suffix_order.le_less_trans suffix_order.trans)
qed

lemma ends_and5 [parser_intros]:
  "ends p1 \<Longrightarrow> ends p2 \<Longrightarrow> ends p3 \<Longrightarrow> ends p4 \<Longrightarrow> ends p5 \<Longrightarrow> ends (and5 p1 p2 p3 p4 p5)"
  by (simp add: ends_def and5_def pbind_PLoop split: prod.splits)

lemma consumes_entry_kinds: "consumes plain_entry" "consumes ms_entry" "consumes secs_entry"
proof -
  have "consumes (and3 (byte a) le_bytes le_bytes)"
    and "consumes (and5 (byte a) (take_bytes n) (byte b) le_bytes le_bytes)" for a b n
    by (intro parser_intros)+
  then show "consumes plain_entry" "consumes ms_entry" "consumes secs_entry"
    by (auto simp: consumes_def plain_entry_def ms_entry_def secs_entry_def split: prod.splits)
qed

lemma ends_entry_kinds: "ends plain_entry" "ends ms_entry" "ends secs_entry"
proof -
  have "ends (and3 (byte a) le_bytes le_bytes)"
    and "ends (and5 (byte a) (take_bytes n) (byte b) le_bytes le_bytes)" for a b n
    by (intro parser_intros)+
  then show "ends plain_entry" "ends ms_entry" "ends secs_entry"
    by (auto simp: ends_def plain_entry_def ms_entry_def secs_entry_def pbind_PLoop split: prod.splits)
qed

lemma consumes_parse_rdb_entry: "consumes parse_rdb_entry"
  using consumes_entry_kinds
  by (auto simp: consumes_def parse_rdb_entry_def or3_def or2_def split: presult.splits)

lemma ends_parse_rdb_entry: "ends parse_rdb_entry"
  using ends_entry_kinds
  by (auto simp: ends_def parse_rdb_entry_def or3_def or2_def split: presult.splits)

interpretation rdb_entry: consuming_parser parse_rdb_entry
  by unfold_locales (rule consumes_parse_rdb_entry)

lemma consumes_metadata: "consumes parse_metadata_subsection"
proof -
  have "slices (and2 le_string le_string)"
    by (intro parser_intros)
  then show ?thesis
    using consumes_byte
    by (auto simp: consumes_def slices_def parse_metadata_subsection_def) (meson suffix_order.le_less_trans)
qed

lemma ends_metadata: "ends parse_metadata_subsection"
proof -
  have "ends (and2 le_string le_string)"
    by (intro parser_intros)
  then show ?thesis
    using ends_byte by (auto simp: ends_def parse_metadata_subsection_def pbind_PLoop)
qed

interpretation metadata: consuming_parser parse_metadata_subsection
  by unfold_locales (rule consumes_metadata)

lemma consumes_db_subsection: "consumes parse_db_subsection"
proof (rule consumesI)
  fix input a rest
  assume "parse_db_subsection input = POk a rest"
  then show "strict_suffix rest input"
    using consumesD [OF consumes_byte] slicesD [OF slices_byte] slicesD [OF slices_le(1)]
      slicesD [OF rdb_entry.many0_slices]
    unfolding parse_db_subsection_def
    by (clarsimp; meson suffix_order.le_less_trans suffix_order.trans)
qed

lemma ends_db_subsection: "ends parse_db_subsection"
  using ends_le(1) ends_byte ends_parse_rdb_entry
  by (auto simp: ends_def parse_db_subsection_def pbind_PLoop rdb_entry.many0_ends)

interpretation db_subsection: consuming_parser parse_db_subsection
  by unfold_locales (rule consumes_db_subsection)

lemma ends_punwrap: "r \<noteq> PLoop \<Longrightarrow> punwrap r \<noteq> PLoop"
  by (simp add: punwrap_def split: presult.splits)

lemma punwrap_not_PErr: "punwrap r \<noteq> PErr e"
  by (simp add: punwrap_def split: presult.splits)

lemma deserialize_ends: "deserialize input \<noteq> PLoop"
proof -
  have tag_ends: "ends (tag_str t)" for t
    by (rule endsI) (simp add: tag_str_def Let_def)
  have "ends (and2 (tag_str (as_bytes ''REDIS'')) (take_bytes 4))"
    by (intro parser_intros tag_ends)
  then show ?thesis
    using ends_metadata ends_db_subsection ends_byte ends_take_bytes
    by (auto simp: deserialize_def ends_def pbind_PLoop ends_punwrap
        metadata.many0_ends db_subsection.many0_ends split: prod.splits)
qed

lemma deserialize_no_error: "deserialize input \<noteq> PErr e"
proof -
  have pbind_PErr: "pbind r f = PErr e \<longleftrightarrow> r = PErr e \<or> (\<exists>a rest. r = POk a rest \<and> f a rest = PErr e)" for r :: "'b presult" and f :: "'b \<Rightarrow> bytes \<Rightarrow> rdb presult"
    by (cases r) auto
  show ?thesis
    by (simp add: deserialize_def pbind_PErr punwrap_not_PErr split: prod.splits)
qed

section \<open>Reading back what was written\<close>

fun rdb_entry_ok :: "key \<times> rdb_string \<Rightarrow> bool" where
  "rdb_entry_ok (k, v) = (length k < 2 ^ 32 \<and> length (rdb_value v) < 2 ^ 32 \<and> encoding v = 0)"

fun metadata_ok :: "bytes \<times> bytes \<Rightarrow> bool" where
  "metadata_ok (k, v) = (length k < 2 ^ 32 \<and> length v < 2 ^ 32 \<and> utf8_valid k \<and> utf8_valid v)"

definition rdb_ok :: "rdb \<Rightarrow> bool" where
  "rdb_ok r \<longleftrightarrow> hm_wf (metadata r) \<and> hm_wf (rdb_data r) \<and> length (rdb_data r) < 2 ^ 32
     \<and> list_all metadata_ok (metadata r) \<and> list_all rdb_entry_ok (rdb_data r)"

abbreviation enc_rdb_entry :: "key \<times> rdb_string \<Rightarrow> bytes" where
  "enc_rdb_entry \<equiv> \<lambda>(k, v). serialize_string k v"

abbreviation enc_metadata :: "bytes \<times> bytes \<Rightarrow> bytes" where
  "enc_metadata \<equiv> \<lambda>(k, v). 0xFA # le_encode_string k @ le_encode_string v"

lemma take_bytes_exact: "length s = n \<Longrightarrow> take_bytes n (s @ r) = POk s r"
  using take_bytes_append by blast

lemma parse_serialized_entry:
  assumes "rdb_entry_ok e"
  shows "parse_rdb_entry (enc_rdb_entry e @ rest) = POk e rest"
proof (cases e)
  case (Pair k v)
  obtain enc s t where v: "v = \<lparr>encoding = enc, rdb_value = s, expire = t\<rparr>"
    by (cases v)
  have strings: "le_bytes (le_encode_size (length x) @ x @ r) = POk x r" if "length x < 2 ^ 32" for x r
    using le_bytes_encode_string [OF that, of r] by (simp add: le_encode_string_def)
  note kinds = parse_rdb_entry_def or3_def or2_def plain_entry_def ms_entry_def secs_entry_def
    and3_def and5_def parse_simps serialize_string_def
  show ?thesis
    using assms Pair v
    by (cases t) (simp_all add: kinds strings take_bytes_exact from_le_bytes_64 from_le_bytes_32)
qed

interpretation rdb_entry_codec: codec enc_rdb_entry parse_rdb_entry "\<lambda>e. e" rdb_entry_ok
proof
  show "enc_rdb_entry e \<noteq> []" for e
    by (simp add: serialize_string_def split: prod.splits)
qed (simp_all add: parse_serialized_entry)

lemma parse_serialized_metadata:
  "metadata_ok m \<Longrightarrow> parse_metadata_subsection (enc_metadata m @ rest) = POk m rest"
  by (cases m) (simp add: parse_metadata_subsection_def and2_def parse_simps le_string_encode_string)

interpretation metadata_codec: codec enc_metadata parse_metadata_subsection "\<lambda>m. m" metadata_ok
  by unfold_locales (auto simp: parse_serialized_metadata split: prod.splits)

text \<open>The section of the one database, and what follows the metadata in a file.\<close>

definition enc_database :: "(key \<times> rdb_string) list \<Rightarrow> nat \<Rightarrow> nat \<Rightarrow> bytes" where
  "enc_database es n expiring =
     0xFE # 0x00 # 0xFB # le_encode_size n @ le_encode_size expiring @ concat (map enc_rdb_entry es)"

lemma no_entry_at_end: "\<exists>e. parse_rdb_entry (0xFF # rest) = PErr e"
  by (simp add: parse_rdb_entry_def or3_def or2_def plain_entry_def ms_entry_def secs_entry_def
      and3_def and5_def parse_simps)

lemma parse_serialized_database:
  assumes "list_all rdb_entry_ok es" and "n < 2 ^ 32" and "expiring < 2 ^ 32"
  shows "parse_db_subsection (enc_database es n expiring @ 0xFF # rest) = POk es (0xFF # rest)"
proof -
  have index: "le_integer (0x00 # r) = POk 0 r" for r
    using le_integer_encode_size [of 0 r] by (simp add: le_encode_size_def)
  obtain e where "parse_rdb_entry (0xFF # rest) = PErr e"
    using no_entry_at_end by blast
  then have "many0 parse_rdb_entry (concat (map enc_rdb_entry es) @ 0xFF # rest) = POk es (0xFF # rest)"
    using rdb_entry_codec.many0_enc [OF assms(1)] by simp
  with assms(2,3) show ?thesis
    by (simp add: parse_db_subsection_def enc_database_def parse_simps index le_integer_encode_size)
qed

lemma no_database_at_end: "\<exists>e. parse_db_subsection (0xFF # rest) = PErr e"
  by (simp add: parse_db_subsection_def parse_simps)

lemma parse_serialized_databases:
  assumes "list_all rdb_entry_ok es" and "n < 2 ^ 32" and "expiring < 2 ^ 32"
  shows "many0 parse_db_subsection (enc_database es n expiring @ 0xFF # rest) = POk [es] (0xFF # rest)"
    and "many0 parse_db_subsection (0xFF # rest) = POk [] (0xFF # rest)"
  using parse_serialized_database [OF assms] no_database_at_end [of rest]
  by (auto simp: many0_def db_subsection.many_loop_step)

lemma parse_serialized_metadatas:
  assumes "list_all metadata_ok ms" and "b \<noteq> 0xFA"
  shows "many0 parse_metadata_subsection (concat (map enc_metadata ms) @ b # rest) = POk ms (b # rest)"
proof -
  have "\<exists>e. parse_metadata_subsection (b # rest) = PErr e"
    using assms(2) by (simp add: parse_metadata_subsection_def parse_simps)
  then show ?thesis
    using metadata_codec.many0_enc [OF assms(1)] by auto
qed

lemma list_all_hm_iter:
  "iteration_order ord \<Longrightarrow> hm_wf m \<Longrightarrow> list_all P m \<Longrightarrow> list_all P (hm_iter ord m)"
  by (simp add: list_all_iff set_hm_iter)

lemma hm_iter_Nil: "iteration_order ord \<Longrightarrow> hm_iter ord [] = []"
  using set_hm_iter [of ord "[]"] by simp

lemma parsed_header:
  "and2 (tag_str (as_bytes ''REDIS'')) (take_bytes 4) (as_bytes ''REDIS0011'' @ r) =
     POk (as_bytes ''REDIS'', as_bytes ''0011'') r"
  by (simp add: and2_def tag_str_def starts_with_def take_bytes_def byte_simps Let_def)

lemma deserialize_serialize:
  assumes "iteration_order ord" and "rdb_ok r"
  shows "deserialize (serialize ord r) =
    POk \<lparr>metadata = hm_collect (hm_iter ord (metadata r)), rdb_data = hm_collect (hm_iter ord (rdb_data r))\<rparr> []"
proof -
  let ?n = "length (rdb_data r)" and ?x = "length (filter (\<lambda>(_, v). expire v \<noteq> NoExpiration) (rdb_data r))"
  have ok: "list_all metadata_ok (hm_iter ord (metadata r))" "list_all rdb_entry_ok (hm_iter ord (rdb_data r))"
    using assms by (simp_all add: rdb_ok_def list_all_hm_iter)
  have sizes: "?n < 2 ^ 32" "?x < 2 ^ 32"
    using assms(2) by (auto simp: rdb_ok_def intro: le_less_trans [OF length_filter_le])
  note databases = parse_serialized_databases [OF ok(2) sizes]
  show ?thesis
  proof (cases "rdb_data r = []")
    case True
    have "serialize ord r = as_bytes ''REDIS0011'' @ concat (map enc_metadata (hm_iter ord (metadata r)))
        @ 0xFF # replicate 8 0"
      using True by (simp add: serialize_def)
    then show ?thesis
      using True assms(1)
      by (simp add: deserialize_def parsed_header punwrap_def parse_serialized_metadatas [OF ok(1)]
          databases(2) parse_simps hm_iter_Nil take_bytes_def)
  next
    case False
    have "serialize ord r = as_bytes ''REDIS0011'' @ concat (map enc_metadata (hm_iter ord (metadata r)))
        @ enc_database (hm_iter ord (rdb_data r)) ?n ?x @ 0xFF # replicate 8 0"
      using False by (simp add: serialize_def enc_database_def)
    moreover have "many0 parse_metadata_subsection (concat (map enc_metadata (hm_iter ord (metadata r)))
        @ enc_database es n x @ t) = POk (hm_iter ord (metadata r)) (enc_database es n x @ t)" for es n x t
      using parse_serialized_metadatas [OF ok(1), of "0xFE"] by (simp add: enc_database_def)
    ultimately show ?thesis
      using databases(1) by (simp add: deserialize_def parsed_header punwrap_def parse_simps take_bytes_def)
  qed
qed

section \<open>Properties\<close>

text \<open>
  The sizes and strings of the file format: whichever of the three length prefixes
  \<open>le_encode_size\<close> picks, \<open>le_integer\<close> and \<open>le_bytes\<close> read the size, and the string it
  announces, off the front of any input.
\<close>

theorem rdb_size_roundtrip:
  assumes "length s < 2 ^ 32"
  shows "le_integer (le_encode_size (length s) @ rest) = POk (word_of_nat (length s)) rest
    \<and> le_bytes (le_encode_string s @ rest) = POk s rest"
  using assms by (simp add: le_integer_encode_size le_bytes_encode_string)

lemma rdb_size_roundtrip_witness:
  "le_integer (le_encode_size (length [1, 2 :: u8]) @ [9]) = POk (word_of_nat (length [1, 2 :: u8])) [9]
    \<and> le_bytes (le_encode_string [1, 2] @ [9]) = POk [1, 2] [9]"
  by (rule rdb_size_roundtrip) simp

text \<open>
  C35. Whole-file round trip: deserializing a serialized RDB succeeds, uses up the file and
  yields the same metadata and the same keys, values and expiry times, in whatever order the
  hash maps were iterated when the file was written.
\<close>

theorem rdb_file_roundtrip:
  assumes "iteration_order ord" and "rdb_ok r"
  shows "\<exists>r'. deserialize (serialize ord r) = POk r' []
    \<and> hm_get (metadata r') = hm_get (metadata r) \<and> hm_get (rdb_data r') = hm_get (rdb_data r)"
  using assms by (auto simp: deserialize_serialize hm_get_collect_iter rdb_ok_def)

lemma rdb_file_roundtrip_witness:
  "\<exists>r'. deserialize (serialize rev \<lparr>metadata = [(as_bytes ''v'', as_bytes ''7'')],
        rdb_data = [([1], \<lparr>encoding = 0, rdb_value = [2], expire = Milliseconds 5\<rparr>),
                    ([3], \<lparr>encoding = 0, rdb_value = [], expire = Seconds 6\<rparr>)]\<rparr>) = POk r' []
    \<and> hm_get (metadata r') = hm_get [(as_bytes ''v'', as_bytes ''7'')]
    \<and> hm_get (rdb_data r') = hm_get [([1], \<lparr>encoding = 0, rdb_value = [2], expire = Milliseconds 5\<rparr>),
        ([3], \<lparr>encoding = 0, rdb_value = [], expire = Seconds 6\<rparr>)]"
  using rdb_file_roundtrip [of rev "\<lparr>metadata = [(as_bytes ''v'', as_bytes ''7'')],
        rdb_data = [([1], \<lparr>encoding = 0, rdb_value = [2], expire = Milliseconds 5\<rparr>),
                    ([3], \<lparr>encoding = 0, rdb_value = [], expire = Seconds 6\<rparr>)]\<rparr>"]
  by (simp add: iteration_order_def rdb_ok_def hm_wf_def byte_simps)

text \<open>
  C36. Reading an RDB file terminates on every input, and never returns the error its signature
  promises: a malformed file is a panic.
\<close>

theorem deserialize_outcome:
  "(\<exists>r rest. deserialize input = POk r rest) \<or> (\<exists>p. deserialize input = PPanic p)"
  using deserialize_ends [of input] deserialize_no_error [of input]
  by (cases "deserialize input") auto

end
