(* ===== verification/StoreState.thy ===== *)
theory StoreState
  imports Command PubSub SortedSets Geocoding Rdb "HOL-Library.Multiset"
begin

text \<open>
  The state of the store (\<open>struct Store\<close> of \<open>main.rs\<close>), what a command can result in, what a
  step tells the rest of the program to do (its effects), and the conversions between the
  store and an RDB file. Field names are those of the source.
\<close>

section \<open>The environment of a step\<close>

text \<open>
  What a step reads from outside the store: the clock in milliseconds, the iteration order
  of the hash maps and sets (unspecified in Rust), the digest of the \<open>sha2\<close> crate, and the
  platform's \<open>sin\<close>, \<open>cos\<close> and \<open>asin\<close>. Every step may have another environment.
\<close>

record env =
  now_ms :: u64
  key_order :: "bytes list \<Rightarrow> bytes list"
  id_order :: "nat list \<Rightarrow> nat list"
  sha256 :: "bytes \<Rightarrow> bytes"
  sin_f64 :: "f64 \<Rightarrow> f64"
  cos_f64 :: "f64 \<Rightarrow> f64"
  asin_f64 :: "f64 \<Rightarrow> f64"

definition env_ok :: "env \<Rightarrow> bool" where
  "env_ok e \<longleftrightarrow> iteration_order (key_order e) \<and> iteration_order (id_order e)"

section \<open>Values, results and effects\<close>

datatype primitive_value =
    Str bytes
  | List "bytes list"
  | Stream redis_stream

record entry =
  prim :: primitive_value
  expire_ms :: "u64 option"

type_synonym waiter = nat
type_synonym reply_channel = nat

datatype try_execute_result =
    Done resp
  | BlockingXread waiter "key list" "stream_key list"
  | BlockingBlpop waiter "key list"
  | WaitCommand waiter u64 u64
  | NoResult

datatype store_push = Replicate command | Message resp

datatype envelope =
    WithReply client_id command reply_channel
  | TimeoutXread waiter
  | TimeoutBlpop waiter
  | AddReplica client_id reply_channel
  | ReplicateEnvelope command
  | WaitCommandTimeout waiter
  | RegisterClient client_id reply_channel
  | UnregisterClient client_id

text \<open>
  The sends of a step, in order: a value into a oneshot channel, a push into the channel of
  a client (waiting for room, or dropped when it is full), and a task that sleeps and then
  posts an envelope to the store.
\<close>

datatype effect =
    SendReply reply_channel resp
  | SendNeedAuth reply_channel bool
  | SendPush client_id store_push
  | TrySendPush client_id store_push
  | StartTimer u64 envelope

section \<open>The store\<close>

record config =
  port :: u16
  replicaof :: "bytes option"
  dir :: bytes
  dbfilename :: "bytes option"
  appendonly :: bytes
  appenddirname :: bytes
  appendfilename :: bytes
  appendfsync :: bytes

text \<open>The channel of a client is named by the client's id.\<close>

record store =
  is_replica :: bool
  clients :: "(client_id, bool) hashmap"
  data :: "(key, entry) hashmap"
  waiter_id :: waiter
  watched_keys :: "(key, client_id hashset) hashmap"
  stream_xread_waiters :: "(waiter, reply_channel \<times> key list \<times> stream_key list) hashmap"
  list_blpop_waiters :: "(waiter, reply_channel \<times> key list) hashmap"
  wait_waiters :: "(waiter, reply_channel \<times> u64 \<times> u64) hashmap"
  master_ack :: u64
  replica_acks :: "(client_id, u64) hashmap"
  pending_write_commands_for_wait :: bool
  config :: config
  pubsub :: pub_sub
  sorted_sets :: zsets
  users :: "(bytes, bytes hashset) hashmap"

definition fresh_store :: "bool \<Rightarrow> config \<Rightarrow> (key, entry) hashmap \<Rightarrow> store" where
  "fresh_store replica cfg d =
     \<lparr>is_replica = replica, clients = [], data = d, waiter_id = 0, watched_keys = [],
      stream_xread_waiters = [], list_blpop_waiters = [], wait_waiters = [], master_ack = 0,
      replica_acks = [], pending_write_commands_for_wait = False, config = cfg,
      pubsub = pubsub_new, sorted_sets = [], users = [(as_bytes ''default'', [])]\<rparr>"

text \<open>
  A command returns the new store, its effects in order, and its result. Most have no effect
  and reply at once.
\<close>

type_synonym exec_result = "(store \<times> effect list \<times> try_execute_result) outcome"

abbreviation finish :: "store \<Rightarrow> resp \<Rightarrow> exec_result" where
  "finish st r \<equiv> Return (st, [], Done r)"

section \<open>From and to an RDB file\<close>

definition entry_of_rdb :: "rdb_string \<Rightarrow> entry" where
  "entry_of_rdb v =
     \<lparr>prim = Str (rdb_value v),
      expire_ms = (case expire v of
          NoExpiration \<Rightarrow> None
        | Milliseconds ms \<Rightarrow> Some ms
        | Seconds secs \<Rightarrow> Some (ucast secs * 1000))\<rparr>"

definition from_rdb :: "env \<Rightarrow> bool \<Rightarrow> config \<Rightarrow> rdb \<Rightarrow> store" where
  "from_rdb e replica cfg r =
     fresh_store replica cfg
       (fold (\<lambda>(k, v). hm_insert k (entry_of_rdb v)) (hm_iter (key_order e) (rdb_data r)) [])"

definition rdb_of_entry :: "bytes \<Rightarrow> u64 option \<Rightarrow> rdb_string" where
  "rdb_of_entry s expiry =
     \<lparr>encoding = 0, rdb_value = s,
      expire = (case expiry of Some ms \<Rightarrow> Milliseconds ms | None \<Rightarrow> NoExpiration)\<rparr>"

definition to_rdb :: "env \<Rightarrow> store \<Rightarrow> rdb" where
  "to_rdb e st =
     fold (\<lambda>(k, v) r. case prim v of Str s \<Rightarrow> rdb_set k (rdb_of_entry s (expire_ms v)) r | _ \<Rightarrow> r)
       (hm_iter (key_order e) (data st)) rdb_new"

text \<open>
  \<open>read_file\<close> is the file system: the contents of a file, or \<open>None\<close> for an error of the
  operating system. A file that does not parse panics in \<open>deserialize\<close>.
\<close>

definition read_from_file :: "(bytes \<Rightarrow> bytes option) \<Rightarrow> bytes \<Rightarrow> rdb option outcome" where
  "read_from_file read_file path =
     (case read_file path of
        None \<Rightarrow> Return None
      | Some content \<Rightarrow>
          (case deserialize content of
             POk r _ \<Rightarrow> Return (Some r)
           | PErr _ \<Rightarrow> Return None
           | PPanic p \<Rightarrow> Panic p
           | PLoop \<Rightarrow> Panic ExplicitPanic))"

definition store_new :: "env \<Rightarrow> (bytes \<Rightarrow> bytes option) \<Rightarrow> bool \<Rightarrow> config \<Rightarrow> store outcome" where
  "store_new e read_file replica cfg =
     obind (case dbfilename cfg of
              Some f \<Rightarrow> read_from_file read_file (dir cfg @ as_bytes ''/'' @ f)
            | None \<Rightarrow> Return None) (\<lambda>r.
       Return (case r of
           Some db \<Rightarrow> from_rdb e replica cfg db
         | None \<Rightarrow> fresh_store replica cfg []))"

section \<open>The invariant of the store\<close>

text \<open>
  Every hash map has distinct keys and every hash set distinct elements; streams are in
  order and hold no id below \<open>0-1\<close>; a watched key has a watcher; the waiters of the three
  tables are different, were handed out by the counter, and read as many ids as keys.
\<close>

definition entry_wf :: "entry \<Rightarrow> bool" where
  "entry_wf v =
     (case prim v of Stream s \<Rightarrow> bt_wf s \<and> list_all (\<lambda>(i, _). (0, 1) \<le> i) s | _ \<Rightarrow> True)"

definition data_wf :: "(key, entry) hashmap \<Rightarrow> bool" where
  "data_wf d \<longleftrightarrow> hm_wf d \<and> list_all (\<lambda>(_, v). entry_wf v) d"

definition sets_wf :: "('k, 'a hashset) hashmap \<Rightarrow> bool" where
  "sets_wf m \<longleftrightarrow> hm_wf m \<and> list_all (\<lambda>(_, s). distinct s) m"

definition watched_wf :: "(key, client_id hashset) hashmap \<Rightarrow> bool" where
  "watched_wf w \<longleftrightarrow> sets_wf w \<and> list_all (\<lambda>(_, cs). cs \<noteq> []) w"

definition waiter_ids :: "store \<Rightarrow> waiter list" where
  "waiter_ids st =
     map fst (stream_xread_waiters st) @ map fst (list_blpop_waiters st) @ map fst (wait_waiters st)"

definition waiters_wf :: "store \<Rightarrow> bool" where
  "waiters_wf st \<longleftrightarrow> distinct (waiter_ids st) \<and> list_all (\<lambda>w. w \<le> waiter_id st) (waiter_ids st)
     \<and> list_all (\<lambda>(_, _, ks, ids). length ks = length ids) (stream_xread_waiters st)"

definition parties_wf :: "store \<Rightarrow> bool" where
  "parties_wf st \<longleftrightarrow> hm_wf (clients st) \<and> hm_wf (replica_acks st) \<and> sets_wf (subscriptions (pubsub st))
     \<and> sets_wf (users st) \<and> zsets_wf (sorted_sets st)"

definition store_wf :: "store \<Rightarrow> bool" where
  "store_wf st \<longleftrightarrow> data_wf (data st) \<and> watched_wf (watched_keys st) \<and> waiters_wf st \<and> parties_wf st"

section \<open>Reply channels\<close>

text \<open>The channels of the clients that wait, and the channels a step has answered.\<close>

definition pending :: "store \<Rightarrow> reply_channel multiset" where
  "pending st =
     mset (map (fst \<circ> snd) (stream_xread_waiters st))
     + mset (map (fst \<circ> snd) (list_blpop_waiters st))
     + mset (map (fst \<circ> snd) (wait_waiters st))"

definition reply_of :: "effect \<Rightarrow> reply_channel list" where
  "reply_of x = (case x of SendReply ch _ \<Rightarrow> [ch] | _ \<Rightarrow> [])"

definition answered :: "effect list \<Rightarrow> reply_channel multiset" where
  "answered out = mset (concat (map reply_of out))"

text \<open>
  What every command guarantees: the invariant is kept, every channel is answered or still
  pending, no timer is started, the tables of waiters only lose entries, the counter of waiters does not go back,
  and a client that is to block gets a waiter that no table uses.
\<close>

definition fresh_waiter :: "waiter \<Rightarrow> store \<Rightarrow> bool" where
  "fresh_waiter w st \<longleftrightarrow> w \<le> waiter_id st \<and> w \<notin> set (waiter_ids st)"

definition result_ok :: "store \<Rightarrow> try_execute_result \<Rightarrow> bool" where
  "result_ok st r =
     (case r of
        BlockingXread w ks ids \<Rightarrow> fresh_waiter w st \<and> length ks = length ids
      | BlockingBlpop w _ \<Rightarrow> fresh_waiter w st
      | WaitCommand w _ _ \<Rightarrow> fresh_waiter w st
      | _ \<Rightarrow> True)"

definition timers_of :: "effect list \<Rightarrow> envelope multiset" where
  "timers_of out = mset (concat (map (\<lambda>x. case x of StartTimer _ m \<Rightarrow> [m] | _ \<Rightarrow> []) out))"

definition no_new_waiters :: "store \<Rightarrow> store \<Rightarrow> bool" where
  "no_new_waiters st st' \<longleftrightarrow> set (stream_xread_waiters st') \<subseteq> set (stream_xread_waiters st)
     \<and> set (list_blpop_waiters st') \<subseteq> set (list_blpop_waiters st)
     \<and> set (wait_waiters st') \<subseteq> set (wait_waiters st)"

definition keeps :: "store \<Rightarrow> effect list \<Rightarrow> store \<Rightarrow> bool" where
  "keeps st out st' \<longleftrightarrow> store_wf st' \<and> answered out + pending st' = pending st
     \<and> waiter_id st \<le> waiter_id st' \<and> no_new_waiters st st' \<and> timers_of out = {#}"

definition good :: "store \<Rightarrow> exec_result \<Rightarrow> bool" where
  "good st x =
     (case x of
        Return (st', out, r) \<Rightarrow> keeps st out st' \<and> result_ok st' r
      | Panic _ \<Rightarrow> True)"

lemma answered_simps [simp]:
  "answered [] = {#}"
  "answered (x # out) = mset (reply_of x) + answered out"
  "answered (out @ out') = answered out + answered out'"
  by (simp_all add: answered_def)

lemma reply_of_simps [simp]:
  "reply_of (SendReply ch r) = [ch]" "reply_of (SendNeedAuth ch b) = []"
  "reply_of (SendPush c p) = []" "reply_of (TrySendPush c p) = []" "reply_of (StartTimer ms m) = []"
  by (simp_all add: reply_of_def)

lemma goodI:
  "(\<And>st' out r. x = Return (st', out, r) \<Longrightarrow> keeps st out st' \<and> result_ok st' r) \<Longrightarrow> good st x"
  by (cases x) (auto simp: good_def)

lemma good_Return [simp]: "good st (Return (st', out, r)) \<longleftrightarrow> keeps st out st' \<and> result_ok st' r"
  by (simp add: good_def)

lemma good_Panic [simp]: "good st (Panic p)"
  by (simp add: good_def)

lemma result_ok_Done [simp]: "result_ok st (Done r)" "result_ok st NoResult"
  by (simp_all add: result_ok_def)

lemma timers_of_simps [simp]:
  "timers_of [] = {#}" "timers_of (StartTimer ms m # out) = add_mset m (timers_of out)"
  "timers_of (SendReply ch r # out) = timers_of out" "timers_of (SendNeedAuth ch b # out) = timers_of out"
  "timers_of (SendPush c p # out) = timers_of out" "timers_of (TrySendPush c p # out) = timers_of out"
  "timers_of (out @ out') = timers_of out + timers_of out'"
  by (simp_all add: timers_of_def)

lemma no_new_waiters_refl [simp]: "no_new_waiters st st"
  by (simp add: no_new_waiters_def)

lemma no_new_waiters_trans: "no_new_waiters st st' \<Longrightarrow> no_new_waiters st' st'' \<Longrightarrow> no_new_waiters st st''"
  by (auto simp: no_new_waiters_def)

lemma no_new_waiters_remove [simp]:
  "no_new_waiters st (stream_xread_waiters_update (hm_remove w) st)"
  "no_new_waiters st (list_blpop_waiters_update (hm_remove w) st)"
  "no_new_waiters st (wait_waiters_update (hm_remove w) st)"
  by (auto simp: no_new_waiters_def hm_remove_def)

lemma keeps_refl: "store_wf st \<Longrightarrow> keeps st [] st"
  by (simp add: keeps_def)

lemma keeps_trans: "keeps st out st' \<Longrightarrow> keeps st' out' st'' \<Longrightarrow> keeps st (out @ out') st''"
  by (auto simp: keeps_def ac_simps intro: no_new_waiters_trans)

lemma good_finish [simp]: "good st (finish st r) \<longleftrightarrow> store_wf st"
  by (simp add: keeps_def)

lemma good_obind:
  "(\<And>r. x = Return r \<Longrightarrow> good st (f r)) \<Longrightarrow> good st (obind x f)"
  by (cases x) simp_all

text \<open>A store that differs from another one only in what does not concern the waiters.\<close>

definition same_waiters :: "store \<Rightarrow> store \<Rightarrow> bool" where
  "same_waiters st st' \<longleftrightarrow> stream_xread_waiters st' = stream_xread_waiters st
     \<and> list_blpop_waiters st' = list_blpop_waiters st \<and> wait_waiters st' = wait_waiters st
     \<and> waiter_id st' = waiter_id st"

lemma same_waiters_facts:
  assumes "same_waiters st st'"
  shows "pending st' = pending st" "waiters_wf st' = waiters_wf st" "waiter_ids st' = waiter_ids st"
    "waiter_id st' = waiter_id st" "no_new_waiters st st'"
  using assms by (simp_all add: same_waiters_def pending_def waiters_wf_def waiter_ids_def no_new_waiters_def)

lemma keeps_same_waiters:
  assumes "same_waiters st st'" and "store_wf st"
    and "data_wf (data st')" and "watched_wf (watched_keys st')" and "parties_wf st'"
    and "answered out = {#}" and "timers_of out = {#}"
  shows "keeps st out st'"
  using assms by (simp add: keeps_def store_wf_def same_waiters_facts)

lemma entry_wf_simps [simp]:
  "entry_wf \<lparr>prim = Str s, expire_ms = x\<rparr>" "entry_wf \<lparr>prim = List xs, expire_ms = x\<rparr>"
  "entry_wf \<lparr>prim = Stream [], expire_ms = x\<rparr>"
  "entry_wf (v\<lparr>prim := Str s\<rparr>)" "entry_wf (v\<lparr>prim := List xs\<rparr>)"
  by (simp_all add: entry_wf_def)

lemma data_wf_insert [simp]: "data_wf d \<Longrightarrow> entry_wf v \<Longrightarrow> data_wf (hm_insert k v d)"
  by (auto simp: data_wf_def list_all_iff mem_hm_insert)

lemma data_wf_get: "data_wf d \<Longrightarrow> hm_get d k = Some v \<Longrightarrow> entry_wf v"
  by (auto simp: data_wf_def list_all_iff dest!: hm_get_mem)

lemma sets_wf_modify [simp]: "sets_wf m \<Longrightarrow> (\<And>s. distinct s \<Longrightarrow> distinct (f s)) \<Longrightarrow> sets_wf (hm_modify k f m)"
  by (auto simp: sets_wf_def list_all_iff) (auto simp: hm_modify_def)

lemma sets_wf_modify_or [simp]:
  "sets_wf m \<Longrightarrow> distinct s \<Longrightarrow> (\<And>s. distinct s \<Longrightarrow> distinct (f s)) \<Longrightarrow> sets_wf (hm_modify_or k f s m)"
  by (auto simp: hm_modify_or_def split: option.splits)
    (auto simp: sets_wf_def list_all_iff mem_hm_insert)

text \<open>Storing a value at a key keeps the invariant.\<close>

lemma keeps_data:
  assumes "store_wf st" and "data_wf d"
  shows "keeps st [] (st\<lparr>data := d\<rparr>)"
  using assms
  by (intro keeps_same_waiters) (auto simp: same_waiters_def store_wf_def parties_wf_def)

lemma store_wf_data: "store_wf st \<Longrightarrow> data_wf d \<Longrightarrow> store_wf (st\<lparr>data := d\<rparr>)"
  using keeps_data [of st d] by (simp add: keeps_def)

lemma store_wf_data_wf: "store_wf st \<Longrightarrow> data_wf (data st)"
  by (simp add: store_wf_def)

text \<open>A new waiter.\<close>

lemma next_waiter:
  assumes "store_wf st"
  shows "keeps st [] (st\<lparr>waiter_id := waiter_id st + 1\<rparr>)"
    and "fresh_waiter (waiter_id st + 1) (st\<lparr>waiter_id := waiter_id st + 1\<rparr>)"
proof -
  let ?st = "st\<lparr>waiter_id := waiter_id st + 1\<rparr>"
  have ids: "waiter_ids (st\<lparr>waiter_id := n\<rparr>) = waiter_ids st" for n
    by (simp add: waiter_ids_def)
  have below: "w \<le> waiter_id st" if "w \<in> set (waiter_ids st)" for w
    using assms that by (simp add: store_wf_def waiters_wf_def list_all_iff)
  show "fresh_waiter (waiter_id st + 1) ?st"
    using below [of "waiter_id st + 1"] by (auto simp: fresh_waiter_def ids)
  have "waiters_wf ?st"
    using assms below by (auto simp: store_wf_def waiters_wf_def ids list_all_iff intro: le_SucI)
  then show "keeps st [] ?st"
    using assms by (simp add: keeps_def store_wf_def parties_wf_def pending_def no_new_waiters_def)
qed

section \<open>The tables of waiters\<close>

lemma mset_remove_key:
  assumes "hm_wf m" and "hm_get m w = Some v"
  shows "mset (map f m) = add_mset (f (w, v)) (mset (map f (hm_remove w m)))"
  using assms
proof (induction m)
  case (Cons x m)
  show ?case
  proof (cases "fst x = w")
    case True
    with Cons.prems have "x = (w, v)"
      by (cases x) (simp add: hm_get_def)
    moreover have "hm_remove w m = m"
      using True Cons.prems(1) by (intro hm_remove_absent) (auto simp: hm_get_None_iff hm_wf_def)
    ultimately show ?thesis
      by (simp add: hm_remove_def)
  next
    case False
    with Cons show ?thesis
      by (auto simp: hm_get_def hm_wf_def hm_remove_def)
  qed
qed simp

text \<open>
  The three tables have one contract: a value with a channel is taken out, or put in under a
  fresh waiter. \<open>other_ids\<close>, \<open>others\<close> and \<open>other_ok\<close> are the ids, the channels and the part of
  the invariant that belong to the other two tables.
\<close>

locale waiter_table =
  fixes tab :: "store \<Rightarrow> (waiter, 'v) hashmap"
    and upd :: "((waiter, 'v) hashmap \<Rightarrow> (waiter, 'v) hashmap) \<Rightarrow> store \<Rightarrow> store"
    and chan :: "'v \<Rightarrow> reply_channel"
    and ok :: "'v \<Rightarrow> bool"
    and other_ids :: "store \<Rightarrow> waiter list"
    and others :: "store \<Rightarrow> reply_channel multiset"
    and other_ok :: "store \<Rightarrow> bool"
  assumes upd_same: "upd (\<lambda>m. m) st = st"
    and ids_upd: "mset (waiter_ids (upd f st)) = mset (other_ids st @ map fst (f (tab st)))"
    and pending_upd: "pending (upd f st) = others st + mset (map (chan \<circ> snd) (f (tab st)))"
    and wf_upd: "waiters_wf (upd f st) \<longleftrightarrow> distinct (waiter_ids (upd f st))
        \<and> list_all (\<lambda>w. w \<le> waiter_id st) (waiter_ids (upd f st))
        \<and> other_ok st \<and> list_all (ok \<circ> snd) (f (tab st))"
    and rest_upd: "data (upd f st) = data st" "watched_keys (upd f st) = watched_keys st"
      "parties_wf (upd f st) = parties_wf st" "waiter_id (upd f st) = waiter_id st"
begin

lemma distinct_upd: "distinct (waiter_ids (upd f st)) \<longleftrightarrow> distinct (other_ids st @ map fst (f (tab st)))"
  using ids_upd by (rule mset_eq_imp_distinct_iff)

lemma set_upd: "set (waiter_ids (upd f st)) = set (other_ids st @ map fst (f (tab st)))"
  using ids_upd by (metis set_mset_mset)

lemmas at_st = ids_upd [of "\<lambda>m. m", unfolded upd_same] pending_upd [of "\<lambda>m. m", unfolded upd_same]
  wf_upd [of "\<lambda>m. m", unfolded upd_same] distinct_upd [of "\<lambda>m. m", unfolded upd_same]
  set_upd [of "\<lambda>m. m", unfolded upd_same]

lemma table_wf: "store_wf st \<Longrightarrow> hm_wf (tab st)"
  by (simp add: store_wf_def at_st(3) at_st(4) hm_wf_def)

lemma get_ok: "store_wf st \<Longrightarrow> hm_get (tab st) w = Some v \<Longrightarrow> ok v"
  by (auto simp: store_wf_def at_st(3) list_all_iff dest!: hm_get_mem)

lemma take:
  assumes "store_wf st" and "hm_get (tab st) w = Some v"
  shows "store_wf (upd (hm_remove w) st)" and "pending st = add_mset (chan v) (pending (upd (hm_remove w) st))"
    and "fresh_waiter w (upd (hm_remove w) st)"
proof -
  have wf: "waiters_wf st" and rest: "data_wf (data st)" "watched_wf (watched_keys st)" "parties_wf st"
    using assms(1) by (simp_all add: store_wf_def)
  have "w \<in> set (map fst (tab st))"
    using hm_get_mem [OF assms(2)] by force
  then show "fresh_waiter w (upd (hm_remove w) st)"
    using wf [unfolded at_st(3-5) list_all_iff] unfolding fresh_waiter_def set_upd rest_upd
    by (auto simp: hm_remove_def)
  have sub: "set (hm_remove w (tab st)) \<subseteq> set (tab st)"
    by (auto simp: hm_remove_def)
  have "waiters_wf (upd (hm_remove w) st)"
    using wf [unfolded at_st(3-5) list_all_iff] sub unfolding wf_upd distinct_upd list_all_iff set_upd
    by (auto simp: hm_remove_def distinct_map_filter)
  with rest show "store_wf (upd (hm_remove w) st)"
    by (simp add: store_wf_def rest_upd)
  show "pending st = add_mset (chan v) (pending (upd (hm_remove w) st))"
    using mset_remove_key [OF table_wf [OF assms(1)] assms(2), of "chan \<circ> snd"]
    by (simp add: pending_upd at_st(2) [of st])
qed

lemma put:
  assumes "store_wf st" and "fresh_waiter w st" and "ok v"
  shows "store_wf (upd (hm_insert w v) st)" and "pending (upd (hm_insert w v) st) = add_mset (chan v) (pending st)"
proof -
  have wf: "waiters_wf st" and rest: "data_wf (data st)" "watched_wf (watched_keys st)" "parties_wf st"
    using assms(1) by (simp_all add: store_wf_def)
  have "w \<notin> set (map fst (tab st))"
    using assms(2) by (auto simp: fresh_waiter_def at_st(5))
  then have ins: "hm_insert w v (tab st) = tab st @ [(w, v)]"
    by (intro hm_insert_absent) (simp add: hm_get_None_iff)
  have "waiters_wf (upd (hm_insert w v) st)"
    using wf [unfolded at_st(3-5) list_all_iff] assms(2,3) [unfolded fresh_waiter_def at_st(5)]
    unfolding wf_upd distinct_upd list_all_iff set_upd ins by auto
  with rest show "store_wf (upd (hm_insert w v) st)"
    by (simp add: store_wf_def rest_upd)
  show "pending (upd (hm_insert w v) st) = add_mset (chan v) (pending st)"
    by (simp add: pending_upd at_st(2) [of st] ins)
qed

end

interpretation xread_table: waiter_table stream_xread_waiters stream_xread_waiters_update fst
  "\<lambda>(_, ks, ids). length ks = length ids"
  "\<lambda>st. map fst (list_blpop_waiters st) @ map fst (wait_waiters st)"
  "\<lambda>st. mset (map (fst \<circ> snd) (list_blpop_waiters st)) + mset (map (fst \<circ> snd) (wait_waiters st))"
  "\<lambda>_. True"
  by unfold_locales
    (auto simp: waiter_ids_def pending_def waiters_wf_def parties_wf_def list_all_iff ac_simps)

interpretation blpop_table: waiter_table list_blpop_waiters list_blpop_waiters_update fst "\<lambda>_. True"
  "\<lambda>st. map fst (stream_xread_waiters st) @ map fst (wait_waiters st)"
  "\<lambda>st. mset (map (fst \<circ> snd) (stream_xread_waiters st)) + mset (map (fst \<circ> snd) (wait_waiters st))"
  "\<lambda>st. list_all (\<lambda>(_, _, ks, ids). length ks = length ids) (stream_xread_waiters st)"
  by unfold_locales
    (auto simp: waiter_ids_def pending_def waiters_wf_def parties_wf_def list_all_iff ac_simps)

interpretation wait_table: waiter_table wait_waiters wait_waiters_update fst "\<lambda>_. True"
  "\<lambda>st. map fst (stream_xread_waiters st) @ map fst (list_blpop_waiters st)"
  "\<lambda>st. mset (map (fst \<circ> snd) (stream_xread_waiters st)) + mset (map (fst \<circ> snd) (list_blpop_waiters st))"
  "\<lambda>st. list_all (\<lambda>(_, _, ks, ids). length ks = length ids) (stream_xread_waiters st)"
  by unfold_locales
    (auto simp: waiter_ids_def pending_def waiters_wf_def parties_wf_def list_all_iff ac_simps)

section \<open>Examples\<close>

text \<open>An environment and a configuration for concrete runs, and the store a server starts with.\<close>

definition plain_env :: env where
  "plain_env = \<lparr>now_ms = 1000, key_order = (\<lambda>ks. ks), id_order = (\<lambda>ids. ids), sha256 = (\<lambda>b. b),
     sin_f64 = (\<lambda>x. x), cos_f64 = (\<lambda>x. x), asin_f64 = (\<lambda>x. x)\<rparr>"

definition plain_config :: config where
  "plain_config = \<lparr>port = 6379, replicaof = None, dir = [], dbfilename = None, appendonly = [],
     appenddirname = [], appendfilename = [], appendfsync = []\<rparr>"

lemma plain_env_ok [simp]: "env_ok plain_env"
  by (simp add: plain_env_def env_ok_def)

lemma store_wf_fresh: "data_wf d \<Longrightarrow> store_wf (fresh_store replica cfg d)"
  by (simp add: fresh_store_def store_wf_def watched_wf_def sets_wf_def waiters_wf_def waiter_ids_def parties_wf_def
      hm_wf_def pubsub_new_def zsets_wf_def)

lemma store_wf_empty [simp]: "store_wf (fresh_store replica cfg [])"
  by (simp add: store_wf_fresh data_wf_def hm_wf_def)

end
