(* ===== verification/StoreKeys.thy ===== *)
theory StoreKeys
  imports StoreState
begin

text \<open>
  The commands on string keys (\<open>SET\<close>, \<open>GET\<close>, \<open>INCR\<close>), on keys of any kind (\<open>TYPE\<close>,
  \<open>KEYS\<close>), and those that only report (\<open>PING\<close>, \<open>INFO\<close>, \<open>CONFIG GET\<close>).
\<close>

section \<open>Operations\<close>

definition command_set :: "env \<Rightarrow> key \<Rightarrow> bytes \<Rightarrow> u64 option \<Rightarrow> u64 option \<Rightarrow> store \<Rightarrow> store \<times> resp" where
  "command_set e k v ex px st =
     (let expiry = (case (ex, px) of
            (Some secs, _) \<Rightarrow> Some (now_ms e + secs * 1000)
          | (_, Some ms) \<Rightarrow> Some (now_ms e + ms)
          | _ \<Rightarrow> None)
      in (st\<lparr>data := hm_insert k \<lparr>prim = Str v, expire_ms = expiry\<rparr> (data st)\<rparr>,
          simple_string ''OK''))"

definition command_get :: "env \<Rightarrow> key \<Rightarrow> store \<Rightarrow> resp" where
  "command_get e k st =
     (case hm_get (data st) k of
        Some v \<Rightarrow>
          (case prim v of
             Str s \<Rightarrow>
               (case expire_ms v of
                  None \<Rightarrow> BulkString s
                | Some ms \<Rightarrow> if ms < now_ms e then NullBulkString else BulkString s)
           | _ \<Rightarrow> NullBulkString)
      | None \<Rightarrow> NullBulkString)"

definition incr_error :: resp where
  "incr_error = simple_error ''ERR value is not an integer or out of range''"

definition command_incr :: "key \<Rightarrow> store \<Rightarrow> store \<times> resp" where
  "command_incr k st =
     (let fresh = (st\<lparr>data := hm_insert k \<lparr>prim = Str (nat_to_string 1), expire_ms = None\<rparr> (data st)\<rparr>,
                   Integer 1)
      in case hm_get (data st) k of
           Some v \<Rightarrow>
             (case prim v of
                Str s \<Rightarrow>
                  (case parsed (integer i64_from_str s) of
                     Some n \<Rightarrow>
                       (st\<lparr>data := hm_insert k (v\<lparr>prim := Str (i64_to_string (n + 1))\<rparr>) (data st)\<rparr>,
                        Integer (n + 1))
                   | None \<Rightarrow> (st, incr_error))
              | _ \<Rightarrow> fresh)
         | None \<Rightarrow> fresh)"

definition command_type :: "key \<Rightarrow> store \<Rightarrow> resp" where
  "command_type k st =
     (case hm_get (data st) k of
        Some v \<Rightarrow>
          (case prim v of
             List _ \<Rightarrow> simple_string ''list''
           | Str _ \<Rightarrow> simple_string ''string''
           | Stream _ \<Rightarrow> simple_string ''stream'')
      | None \<Rightarrow> simple_string ''none'')"

definition command_keys :: "env \<Rightarrow> store \<Rightarrow> resp" where
  "command_keys e st = Array (map BulkString (key_order e (map fst (data st))))"

definition command_config_get :: "bytes \<Rightarrow> store \<Rightarrow> resp" where
  "command_config_get parameter st =
     (let c = config st;
          found = (if parameter = as_bytes ''dir'' then Some (dir c)
                   else if parameter = as_bytes ''dbfilename'' then dbfilename c
                   else if parameter = as_bytes ''appendonly'' then Some (appendonly c)
                   else if parameter = as_bytes ''appenddirname'' then Some (appenddirname c)
                   else if parameter = as_bytes ''appendfilename'' then Some (appendfilename c)
                   else if parameter = as_bytes ''appendfsync'' then Some (appendfsync c)
                   else None)
      in Array (case found of Some v \<Rightarrow> [BulkString parameter, BulkString v] | None \<Rightarrow> []))"

definition command_info :: "store \<Rightarrow> resp" where
  "command_info st =
     BulkString
       (as_bytes ''# Replication'' @ [10] @ as_bytes ''role:''
        @ as_bytes (if is_replica st then ''slave'' else ''master'')
        @ [10] @ as_bytes ''master_replid:8371b4fb1155b71f4a04d3e1bc3e18c4a990aeeb''
        @ [10] @ as_bytes ''master_repl_offset:'' @ u64_to_string (master_ack st))"

definition command_ping :: "bytes option \<Rightarrow> resp" where
  "command_ping message =
     (case message of Some m \<Rightarrow> BulkString m | None \<Rightarrow> simple_string ''PONG'')"

section \<open>The invariant\<close>

lemma keeps_command_set: "store_wf st \<Longrightarrow> keeps st [] (fst (command_set e k v ex px st))"
  by (simp add: command_set_def Let_def keeps_data store_wf_data_wf)

lemma keeps_command_incr: "store_wf st \<Longrightarrow> keeps st [] (fst (command_incr k st))"
  by (auto simp: command_incr_def Let_def keeps_refl intro!: keeps_data data_wf_insert store_wf_data_wf
      split: option.splits primitive_value.splits)

section \<open>Expiry\<close>

text \<open>The time, as an integer, up to which a value is there.\<close>

definition deadline :: "u64 \<Rightarrow> u64 option \<Rightarrow> u64 option \<Rightarrow> nat option" where
  "deadline now ex px =
     (case (ex, px) of
        (Some secs, _) \<Rightarrow> Some (unat now + unat secs * 1000)
      | (None, Some ms) \<Rightarrow> Some (unat now + unat ms)
      | (None, None) \<Rightarrow> None)"

lemma unat_deadline:
  fixes now ms secs :: u64
  shows "unat now + unat ms < 2 ^ 64 \<Longrightarrow> unat (now + ms) = unat now + unat ms"
    and "unat now + unat secs * 1000 < 2 ^ 64 \<Longrightarrow> unat (now + secs * 1000) = unat now + unat secs * 1000"
proof -
  show "unat now + unat ms < 2 ^ 64 \<Longrightarrow> unat (now + ms) = unat now + unat ms"
    by (simp add: unat_word_ariths)
  assume small: "unat now + unat secs * 1000 < 2 ^ 64"
  then have "unat (secs * 1000) = unat secs * 1000"
    by (simp add: unat_word_ariths)
  with small show "unat (now + secs * 1000) = unat now + unat secs * 1000"
    by (simp add: unat_word_ariths)
qed

text \<open>
  C27. \<open>GET\<close> after \<open>SET\<close>: the value is returned up to and including its deadline (the clock at
  the \<open>SET\<close> plus the expiry, in integers, as long as it fits 64 bits), for ever without one,
  and is gone afterwards; the reply for every other key is what it was.
\<close>

theorem get_after_set:
  assumes "case deadline (now_ms e) ex px of Some t \<Rightarrow> t < 2 ^ 64 | None \<Rightarrow> True"
  shows "command_get e' k' (fst (command_set e k v ex px st)) =
    (if k' \<noteq> k then command_get e' k' st
     else case deadline (now_ms e) ex px of
       Some t \<Rightarrow> if unat (now_ms e') \<le> t then BulkString v else NullBulkString
     | None \<Rightarrow> BulkString v)"
  using assms
  by (auto simp: command_get_def command_set_def deadline_def map_simps Let_def word_less_nat_alt unat_deadline
      split: option.splits)

theorem get_after_set_witness:
  "command_get (plain_env\<lparr>now_ms := 1500\<rparr>) [107] (fst (command_set plain_env [107] [118] None (Some 499) (fresh_store False plain_config []))) = NullBulkString"
  by (subst get_after_set) (simp_all add: deadline_def plain_env_def)

section \<open>Counting\<close>

text \<open>A string that starts with an integer, as \<open>INCR\<close> reads it: what follows is not looked at.\<close>

definition counts_as :: "bytes \<Rightarrow> i64 \<Rightarrow> bool" where
  "counts_as s i \<longleftrightarrow> (\<exists>junk. s = i64_to_string i @ junk \<and> no_digit_next junk)"

lemma counts_as_parsed: "counts_as s i \<Longrightarrow> parsed (integer i64_from_str s) = Some i"
  by (auto simp: counts_as_def parsed_def integer_i64_to_string)

lemma counts_as_string [simp]: "counts_as (i64_to_string i) i"
  by (auto simp: counts_as_def)

definition string_at :: "key \<Rightarrow> store \<Rightarrow> bytes option" where
  "string_at k st =
     (case hm_get (data st) k of
        Some v \<Rightarrow> (case prim v of Str s \<Rightarrow> Some s | _ \<Rightarrow> None)
      | None \<Rightarrow> None)"

lemma incr_step:
  assumes "string_at k st = Some s" and "counts_as s i"
  shows "string_at k (fst (command_incr k st)) = Some (i64_to_string (i + 1))"
    and "snd (command_incr k st) = Integer (i + 1)"
  using assms counts_as_parsed [OF assms(2)]
  by (auto simp: command_incr_def string_at_def map_simps Let_def split: option.splits primitive_value.splits)

primrec incr_times :: "nat \<Rightarrow> key \<Rightarrow> store \<Rightarrow> store" where
  "incr_times 0 k st = st"
| "incr_times (Suc n) k st = fst (command_incr k (incr_times n k st))"

lemma incr_times_string:
  assumes "string_at k st = Some s" and "counts_as s i"
  shows "\<exists>s'. string_at k (incr_times n k st) = Some s' \<and> counts_as s' (i + word_of_nat n)"
proof (induction n)
  case (Suc n)
  then obtain s' where "string_at k (incr_times n k st) = Some s'" "counts_as s' (i + word_of_nat n)"
    by blast
  from incr_step(1) [OF this] have "string_at k (incr_times (Suc n) k st) = Some (i64_to_string (i + word_of_nat n + 1))"
    by simp
  moreover have "i + word_of_nat (Suc n) = i + word_of_nat n + 1"
    by (simp only: of_nat_Suc add.commute add.left_commute)
  ultimately show ?case
    by (simp only: counts_as_string option.inject ex_simps simp_thms)
qed (use assms in simp)

text \<open>
  C28. Repeated \<open>INCR\<close> counts: from a string that starts with the integer \<open>i\<close>, the \<open>n + 1\<close>st
  \<open>INCR\<close> replies \<open>i + n + 1\<close>, and that number is what the key then holds. The sum wraps at 64
  bits (a release build), and bytes after the number are ignored and lost.
\<close>

theorem incr_counts:
  assumes "string_at k st = Some s" and "counts_as s i"
  shows "snd (command_incr k (incr_times n k st)) = Integer (i + word_of_nat n + 1)
    \<and> string_at k (incr_times (Suc n) k st) = Some (i64_to_string (i + word_of_nat n + 1))"
proof -
  obtain s' where "string_at k (incr_times n k st) = Some s'" "counts_as s' (i + word_of_nat n)"
    using incr_times_string [OF assms] by blast
  from incr_step [OF this] show ?thesis
    by simp
qed

theorem incr_counts_witness:
  "snd (command_incr [107] (incr_times 4 [107]
     (fresh_store False plain_config [([107], \<lparr>prim = Str (i64_to_string 7 @ as_bytes ''abc''), expire_ms = None\<rparr>)]))) = Integer 12"
proof -
  have "no_digit_next (as_bytes ''abc'')"
    by (simp add: no_digit_next_def is_ascii_digit_def as_bytes_def)
  then show ?thesis
    using incr_counts [of "[107]" "fresh_store False plain_config [([107], \<lparr>prim = Str (i64_to_string 7 @ as_bytes ''abc''), expire_ms = None\<rparr>)]"
        "i64_to_string 7 @ as_bytes ''abc''" 7 4]
    by (auto simp: string_at_def fresh_store_def hm_get_def counts_as_def)
qed

text \<open>
  \<open>INCR\<close> on every branch: a key without a string is set to 1, whatever it held before; a
  string that does not start with an integer of 64 bits gives an error and leaves the whole
  store as it is; any other string is replaced by its successor.
\<close>

theorem incr_branches:
  "case string_at k st of
     None \<Rightarrow> snd (command_incr k st) = Integer 1
       \<and> string_at k (fst (command_incr k st)) = Some (i64_to_string 1)
   | Some s \<Rightarrow>
       (case parsed (integer i64_from_str s) of
          None \<Rightarrow> command_incr k st = (st, incr_error)
        | Some i \<Rightarrow> snd (command_incr k st) = Integer (i + 1)
            \<and> string_at k (fst (command_incr k st)) = Some (i64_to_string (i + 1)))"
  by (auto simp: command_incr_def string_at_def map_simps Let_def i64_to_string_def int_to_string_def
      split: option.splits primitive_value.splits)

end
