(* ===== verification/StoreLists.thy ===== *)
theory StoreLists
  imports StoreState
begin

text \<open>
  The commands on lists, and the clients that block on them (\<open>BLPOP\<close>).
\<close>

text \<open>The list at a key, if there is one there.\<close>

definition list_at :: "key \<Rightarrow> store \<Rightarrow> bytes list option" where
  "list_at k st =
     (case hm_get (data st) k of
        Some v \<Rightarrow> (case prim v of List xs \<Rightarrow> Some xs | _ \<Rightarrow> None)
      | None \<Rightarrow> None)"

section \<open>Blocked clients\<close>

text \<open>The first of the keys that holds a list with an element gives up its head.\<close>

primrec fetch_blpop :: "key list \<Rightarrow> store \<Rightarrow> store \<times> resp \<times> bool" where
  "fetch_blpop [] st = (st, NullArray, True)"
| "fetch_blpop (k # ks) st =
     (case hm_get (data st) k of
        Some v \<Rightarrow>
          (case prim v of
             List (h # t) \<Rightarrow>
               (st\<lparr>data := hm_insert k (v\<lparr>prim := List t\<rparr>) (data st)\<rparr>,
                Array [BulkString k, BulkString h], False)
           | _ \<Rightarrow> fetch_blpop ks st)
      | None \<Rightarrow> fetch_blpop ks st)"

text \<open>The waiters whose keys contain \<open>k\<close>, in iteration order.\<close>

definition interested :: "env \<Rightarrow> ('v \<Rightarrow> key list) \<Rightarrow> key \<Rightarrow> (waiter, 'v) hashmap \<Rightarrow> waiter list" where
  "interested e keys_of k m = map fst (filter (\<lambda>(_, v). k \<in> set (keys_of v)) (hm_iter (id_order e) m))"

definition serve_blpop_waiter :: "waiter \<Rightarrow> store \<Rightarrow> (store \<times> effect list) outcome" where
  "serve_blpop_waiter w st =
     obind (unwrap (hm_get (list_blpop_waiters st) w)) (\<lambda>(chan, keys).
       let st = st\<lparr>list_blpop_waiters := hm_remove w (list_blpop_waiters st)\<rparr>;
           (st, rows, is_empty) = fetch_blpop keys st
       in if \<not> is_empty
          then Return (st\<lparr>list_blpop_waiters := hm_remove w (list_blpop_waiters st)\<rparr>, [SendReply chan rows])
          else Return (st\<lparr>list_blpop_waiters := hm_insert w (chan, keys) (list_blpop_waiters st)\<rparr>, []))"

primrec serve_blpop_waiters :: "waiter list \<Rightarrow> store \<Rightarrow> (store \<times> effect list) outcome" where
  "serve_blpop_waiters [] st = Return (st, [])"
| "serve_blpop_waiters (w # ws) st =
     obind (serve_blpop_waiter w st) (\<lambda>(st, out).
     obind (serve_blpop_waiters ws st) (\<lambda>(st, out'). Return (st, out @ out')))"

definition notify_blpop_waiters :: "env \<Rightarrow> key \<Rightarrow> store \<Rightarrow> (store \<times> effect list) outcome" where
  "notify_blpop_waiters e k st =
     serve_blpop_waiters (interested e snd k (list_blpop_waiters st)) st"

section \<open>Operations\<close>

text \<open>\<open>as i64\<close> of a length.\<close>

abbreviation len_i64 :: "nat \<Rightarrow> i64" where
  "len_i64 n \<equiv> word_of_nat n"

definition map_list :: "key \<Rightarrow> (bytes list \<Rightarrow> 'r) \<Rightarrow> store \<Rightarrow> 'r option" where
  "map_list k f st = map_option f (list_at k st)"

text \<open>
  The body of \<open>RPUSH\<close> and \<open>LPUSH\<close>: \<open>grow\<close> pushes onto a list that is there, \<open>initial\<close> is
  what a key without one is set to.
\<close>

definition push_with :: "env \<Rightarrow> key \<Rightarrow> (bytes list \<Rightarrow> bytes list) \<Rightarrow> bytes list \<Rightarrow> store \<Rightarrow> exec_result" where
  "push_with e k grow initial st =
     (let (st, n) =
        (case hm_get (data st) k of
           Some v \<Rightarrow>
             (case prim v of
                List xs \<Rightarrow>
                  (st\<lparr>data := hm_insert k (v\<lparr>prim := List (grow xs)\<rparr>) (data st)\<rparr>, length (grow xs))
              | _ \<Rightarrow>
                  (st\<lparr>data := hm_insert k \<lparr>prim = List initial, expire_ms = None\<rparr> (data st)\<rparr>, length initial))
         | None \<Rightarrow>
             (st\<lparr>data := hm_insert k \<lparr>prim = List initial, expire_ms = None\<rparr> (data st)\<rparr>, length initial))
      in obind (notify_blpop_waiters e k st) (\<lambda>(st, out). Return (st, out, Done (Integer (len_i64 n)))))"

definition command_rpush :: "env \<Rightarrow> key \<Rightarrow> bytes list \<Rightarrow> store \<Rightarrow> exec_result" where
  "command_rpush e k elements st =
     push_with e k (\<lambda>xs. fold (\<lambda>x xs. xs @ [x]) elements xs) elements st"

definition command_lpush :: "env \<Rightarrow> key \<Rightarrow> bytes list \<Rightarrow> store \<Rightarrow> exec_result" where
  "command_lpush e k elements st =
     push_with e k (\<lambda>xs. fold (\<lambda>x xs. x # xs) elements xs) (rev elements) st"

text \<open>\<open>for _ in 0..c\<close>: pop until the count or the list runs out.\<close>

fun pop_up_to :: "nat \<Rightarrow> bytes list \<Rightarrow> bytes list \<times> bytes list" where
  "pop_up_to (Suc c) (x # xs) = (let (els, rest) = pop_up_to c xs in (x # els, rest))"
| "pop_up_to _ xs = ([], xs)"

definition command_lpop :: "key \<Rightarrow> u32 option \<Rightarrow> store \<Rightarrow> store \<times> resp" where
  "command_lpop k cnt st =
     (case hm_get (data st) k of
        Some v \<Rightarrow>
          (case prim v of
             List [] \<Rightarrow> (st, NullBulkString)
           | List (x # xs) \<Rightarrow>
               (case cnt of
                  None \<Rightarrow> (st\<lparr>data := hm_insert k (v\<lparr>prim := List xs\<rparr>) (data st)\<rparr>, BulkString x)
                | Some c \<Rightarrow>
                    (let (els, rest) = pop_up_to (unat c) (x # xs)
                     in (st\<lparr>data := hm_insert k (v\<lparr>prim := List rest\<rparr>) (data st)\<rparr>,
                         Array (map BulkString els))))
           | _ \<Rightarrow> (st, NullBulkString))
      | None \<Rightarrow> (st, NullBulkString))"

text \<open>\<open>for i in a..=b\<close> with \<open>list[i]\<close>, which panics out of range.\<close>

definition slice_incl :: "nat \<Rightarrow> nat \<Rightarrow> bytes list \<Rightarrow> bytes list outcome" where
  "slice_incl a b xs = omap (index xs) [a..<Suc b]"

definition command_lrange :: "key \<Rightarrow> i32 \<Rightarrow> i32 \<Rightarrow> store \<Rightarrow> resp outcome" where
  "command_lrange k start stop st =
     (case list_at k st of
        Some xs \<Rightarrow>
          (let (a, b) = range_bounds start stop (word_of_nat (length xs))
           in if sint b < sint a then Return (Array [])
              else obind (slice_incl (unat (scast a :: u64)) (unat (scast b :: u64)) xs) (\<lambda>els.
                     Return (Array (map BulkString els))))
      | None \<Rightarrow> Return (Array []))"

definition command_llen :: "key \<Rightarrow> store \<Rightarrow> resp" where
  "command_llen k st = Integer (len_i64 (case map_list k length st of Some n \<Rightarrow> n | None \<Rightarrow> 0))"

definition command_blpop :: "key list \<Rightarrow> store \<Rightarrow> store \<times> try_execute_result" where
  "command_blpop keys st =
     (let (st, rsp, is_empty) = fetch_blpop keys st
      in if \<not> is_empty then (st, Done rsp)
         else (st\<lparr>waiter_id := waiter_id st + 1\<rparr>, BlockingBlpop (waiter_id st + 1) keys))"

section \<open>The invariant\<close>

lemma fetch_blpop_same: "same_waiters st (fst (fetch_blpop ks st))"
  by (induction ks) (auto simp: same_waiters_def split: option.splits primitive_value.splits list.splits)

lemma keeps_fetch_blpop: "store_wf st \<Longrightarrow> keeps st [] (fst (fetch_blpop ks st))"
  by (induction ks) (auto simp: keeps_refl intro!: keeps_data data_wf_insert store_wf_data_wf
      split: option.splits primitive_value.splits list.splits)

text \<open>A key that has an element to give.\<close>

definition has_element :: "store \<Rightarrow> key \<Rightarrow> bool" where
  "has_element st k \<longleftrightarrow> (case list_at k st of Some (_ # _) \<Rightarrow> True | _ \<Rightarrow> False)"

lemma fetch_blpop_empty_iff: "snd (snd (fetch_blpop ks st)) \<longleftrightarrow> (\<forall>k \<in> set ks. \<not> has_element st k)"
  by (induction ks) (auto simp: has_element_def list_at_def split: option.splits primitive_value.splits list.splits)

lemma fetch_blpop_empty: "snd (snd (fetch_blpop ks st)) \<Longrightarrow> fst (fetch_blpop ks st) = st"
  by (induction ks) (auto split: option.splits primitive_value.splits list.splits)

lemma list_at_insert: "list_at k' (st\<lparr>data := hm_insert k v (data st)\<rparr>) =
    (if k' = k then (case prim v of List xs \<Rightarrow> Some xs | _ \<Rightarrow> None) else list_at k' st)"
  by (simp add: list_at_def map_simps)

lemma fetch_blpop_shrinks: "has_element (fst (fetch_blpop ks st)) k \<Longrightarrow> has_element st k"
  by (induction ks)
    (auto simp: has_element_def list_at_insert split: option.splits primitive_value.splits list.splits if_splits,
      auto simp: list_at_def)

lemma remove_waiter_twice:
  "same_waiters st st' \<Longrightarrow> hm_get (list_blpop_waiters st) w = None \<Longrightarrow>
     st'\<lparr>list_blpop_waiters := hm_remove w (list_blpop_waiters st')\<rparr> = st'"
  by (simp add: same_waiters_def hm_remove_absent)

lemma keeps_serve_blpop_waiter:
  assumes wf: "store_wf st" and served: "serve_blpop_waiter w st = Return (st', out)"
  shows "keeps st out st'"
proof -
  obtain ch ks where get: "hm_get (list_blpop_waiters st) w = Some (ch, ks)"
    using served by (auto simp: serve_blpop_waiter_def)
  define st1 where "st1 = st\<lparr>list_blpop_waiters := hm_remove w (list_blpop_waiters st)\<rparr>"
  have upd: "st1 = list_blpop_waiters_update (hm_remove w) st"
    by (simp add: st1_def)
  note taken = blpop_table.take [OF wf get, folded upd]
  have absent: "hm_get (list_blpop_waiters st1) w = None"
    by (simp add: st1_def map_simps)
  obtain st2 rsp emp where fetch: "fetch_blpop ks st1 = (st2, rsp, emp)"
    by (metis prod_cases3)
  have kept: "keeps st1 [] st2" and same: "same_waiters st1 st2"
    using keeps_fetch_blpop [OF taken(1), of ks] fetch_blpop_same [of st1 ks] fetch by simp_all
  have id: "waiter_id st1 = waiter_id st" "no_new_waiters st st1"
    by (simp_all add: upd)
  show ?thesis
  proof (cases emp)
    case False
    then have "st' = st2" "out = [SendReply ch rsp]"
      using served get fetch remove_waiter_twice [OF same absent]
      by (simp_all add: serve_blpop_waiter_def st1_def Let_def)
    with kept taken(2) id show ?thesis
      using no_new_waiters_trans [OF id(2)] by (simp add: keeps_def)
  next
    case True
    then have "st2 = st1"
      using fetch_blpop_empty [of ks st1] fetch by simp
    with True have st': "st' = list_blpop_waiters_update (hm_insert w (ch, ks)) st1" and "out = []"
      using served get fetch by (auto simp: serve_blpop_waiter_def st1_def Let_def)
    have "no_new_waiters st st'"
      using hm_get_mem [OF get] hm_wf_remove [OF blpop_table.table_wf [OF wf]]
      by (auto simp: st' st1_def no_new_waiters_def mem_hm_insert mem_hm_remove)
    with blpop_table.put [OF taken(1,3), of "(ch, ks)"] taken(2) id show ?thesis
      by (simp add: st' keeps_def \<open>out = []\<close>)
  qed
qed

lemma keeps_serve_blpop_waiters:
  "store_wf st \<Longrightarrow> serve_blpop_waiters ws st = Return (st', out) \<Longrightarrow> keeps st out st'"
proof (induction ws arbitrary: st st' out)
  case (Cons w ws)
  then obtain st1 out1 out2 where "serve_blpop_waiter w st = Return (st1, out1)"
    "serve_blpop_waiters ws st1 = Return (st', out2)" "out = out1 @ out2"
    by auto
  moreover from this have "keeps st out1 st1"
    using Cons.prems(1) by (intro keeps_serve_blpop_waiter)
  moreover from this have "store_wf st1"
    by (simp add: keeps_def)
  ultimately show ?case
    using Cons.IH keeps_trans by blast
qed (simp add: keeps_refl)

lemma good_push:
  assumes "store_wf st"
  shows "good st (push_with e k grow initial st)"
proof -
  have notified: "good st (obind (notify_blpop_waiters e k st1) (\<lambda>(st, out). Return (st, out, Done r)))"
    if "keeps st [] st1" for st1 r
  proof (rule good_obind)
    fix x
    assume "notify_blpop_waiters e k st1 = Return x"
    then have "keeps st1 (snd x) (fst x)"
      using that by (intro keeps_serve_blpop_waiters) (auto simp: notify_blpop_waiters_def keeps_def)
    with that show "good st (case x of (st, out) \<Rightarrow> Return (st, out, Done r))"
      using keeps_trans by (fastforce split: prod.splits)
  qed
  with assms show ?thesis
    by (auto simp: push_with_def Let_def intro!: notified keeps_data data_wf_insert store_wf_data_wf
        split: option.splits primitive_value.splits)
qed

lemma good_pushes:
  "store_wf st \<Longrightarrow> good st (command_rpush e k xs st)" "store_wf st \<Longrightarrow> good st (command_lpush e k xs st)"
  by (simp_all add: command_rpush_def command_lpush_def good_push)

lemma keeps_command_lpop: "store_wf st \<Longrightarrow> keeps st [] (fst (command_lpop k cnt st))"
  by (auto simp: command_lpop_def Let_def keeps_refl intro!: keeps_data data_wf_insert store_wf_data_wf
      split: option.splits primitive_value.splits list.splits prod.splits)

lemma good_blpop:
  assumes "store_wf st" and "command_blpop ks st = (st', r)"
  shows "keeps st [] st' \<and> result_ok st' r"
  using assms fetch_blpop_empty [of ks st] keeps_fetch_blpop [OF assms(1), of ks] next_waiter [OF assms(1)]
  by (auto simp: command_blpop_def Let_def result_ok_def split: prod.splits if_splits)

section \<open>Lists as an abstract data type\<close>

text \<open>The lists of a store, as a map from keys; a key that holds something else has none.\<close>

definition lists :: "store \<Rightarrow> key \<Rightarrow> bytes list option" where
  "lists st = (\<lambda>k. list_at k st)"

definition elements_at :: "key \<Rightarrow> store \<Rightarrow> bytes list" where
  "elements_at k st = (case list_at k st of Some xs \<Rightarrow> xs | None \<Rightarrow> [])"

lemma lists_insert: "prim v = List xs \<Longrightarrow> lists (st\<lparr>data := hm_insert k v (data st)\<rparr>) = (lists st)(k \<mapsto> xs)"
  by (auto simp: lists_def list_at_insert)

lemma fold_push_back: "fold (\<lambda>x xs. xs @ [x]) ys xs = xs @ ys"
  by (induction ys arbitrary: xs) auto

lemma fold_push_front: "fold (\<lambda>x xs. x # xs) ys xs = rev ys @ xs"
  by (induction ys arbitrary: xs) auto

definition nobody_waits :: "key \<Rightarrow> store \<Rightarrow> bool" where
  "nobody_waits k st = list_all (\<lambda>(_, _, ks). k \<notin> set ks) (list_blpop_waiters st)"

lemma push_with_unwatched:
  assumes "store_wf st" and "env_ok e" and "nobody_waits k st" and "grow [] = initial"
  shows "\<exists>st'. push_with e k grow initial st = Return (st', [], Done (Integer (len_i64 (length (grow (elements_at k st))))))
    \<and> lists st' = (lists st)(k \<mapsto> grow (elements_at k st))
    \<and> (\<exists>v. st' = st\<lparr>data := hm_insert k v (data st)\<rparr>)"
proof -
  have none: "interested e snd k (list_blpop_waiters st) = []"
    using assms(2,3) set_hm_iter [OF _ blpop_table.table_wf [OF assms(1)], of "id_order e"]
    by (auto simp: interested_def filter_empty_conv env_ok_def nobody_waits_def list_all_iff)
  define v where "v =
    (case hm_get (data st) k of
       Some v \<Rightarrow> (case prim v of List xs \<Rightarrow> v\<lparr>prim := List (grow xs)\<rparr> | _ \<Rightarrow> \<lparr>prim = List initial, expire_ms = None\<rparr>)
     | None \<Rightarrow> \<lparr>prim = List initial, expire_ms = None\<rparr>)"
  have "prim v = List (grow (elements_at k st))"
    using assms(4) by (auto simp: v_def elements_at_def list_at_def split: option.splits primitive_value.splits)
  moreover have "push_with e k grow initial st =
      Return (st\<lparr>data := hm_insert k v (data st)\<rparr>, [], Done (Integer (len_i64 (length (grow (elements_at k st))))))"
    using assms(4) none
    by (auto simp: push_with_def v_def elements_at_def list_at_def notify_blpop_waiters_def Let_def
        split: option.splits primitive_value.splits)
  ultimately show ?thesis
    by (auto simp: lists_insert)
qed

text \<open>
  C24. \<open>RPUSH\<close> and \<open>LPUSH\<close> refine appending at the two ends: when nobody is blocked on the key,
  the list becomes the old one followed by the elements, or the elements in reverse order
  followed by the old one (an absent list, or a value of another type, counts as empty), and the reply
  is the new length. Every other key keeps its value, whatever its type, and no other part of the
  store changes.
\<close>

theorem push_refines_append:
  assumes "store_wf st" and "env_ok e" and "nobody_waits k st"
  shows "(\<exists>st'. command_rpush e k xs st = Return (st', [], Done (Integer (len_i64 (length (elements_at k st) + length xs))))
      \<and> lists st' = (lists st)(k \<mapsto> elements_at k st @ xs)
      \<and> (\<forall>k'. k' \<noteq> k \<longrightarrow> hm_get (data st') k' = hm_get (data st) k') \<and> st' = st\<lparr>data := data st'\<rparr>)
    \<and> (\<exists>st'. command_lpush e k xs st = Return (st', [], Done (Integer (len_i64 (length (elements_at k st) + length xs))))
      \<and> lists st' = (lists st)(k \<mapsto> rev xs @ elements_at k st)
      \<and> (\<forall>k'. k' \<noteq> k \<longrightarrow> hm_get (data st') k' = hm_get (data st) k') \<and> st' = st\<lparr>data := data st'\<rparr>)"
  using push_with_unwatched [OF assms, of "\<lambda>ys. ys @ xs" xs] push_with_unwatched [OF assms, of "\<lambda>ys. rev xs @ ys" "rev xs"]
  unfolding command_rpush_def command_lpush_def fold_push_back fold_push_front
  by (auto simp: add.commute map_simps)

text \<open>A store with one list on which nobody waits.\<close>

definition list_store :: "bytes list \<Rightarrow> store" where
  "list_store xs = fresh_store False plain_config [([107], \<lparr>prim = List xs, expire_ms = None\<rparr>)]"

lemma list_store_facts [simp]:
  "store_wf (list_store xs)" "nobody_waits k (list_store xs)"
  "list_at k (list_store xs) = (if k = [107] then Some xs else None)"
  by (auto simp: list_store_def data_wf_def hm_wf_def intro!: store_wf_fresh)
    (simp_all add: fresh_store_def nobody_waits_def list_at_def hm_get_def)

theorem push_refines_append_witness:
  "\<exists>st'. command_lpush plain_env [107] [[2], [3]] (list_store [[1]]) = Return (st', [], Done (Integer 3))
     \<and> lists st' [107] = Some [[3], [2], [1]]"
  using push_refines_append [of "list_store [[1]]" plain_env "[107]" "[[2], [3]]"]
  by (auto simp: elements_at_def)

lemma pop_up_to_append: "pop_up_to n xs = (take n xs, drop n xs)"
  by (induction n xs rule: pop_up_to.induct) (auto simp: Let_def)

text \<open>
  C25. \<open>LPOP\<close> refines splitting a prefix off: without a count the head is returned, with a
  count as many elements as there are up to it; what is left stays at the key, every other
  list stays; a missing or empty list gives a null and changes nothing.
\<close>

theorem lpop_refines_split:
  "case elements_at k st of
     [] \<Rightarrow> command_lpop k cnt st = (st, NullBulkString)
   | x # xs \<Rightarrow>
       (case cnt of
          None \<Rightarrow> snd (command_lpop k cnt st) = BulkString x
            \<and> lists (fst (command_lpop k cnt st)) = (lists st)(k \<mapsto> xs)
        | Some c \<Rightarrow> snd (command_lpop k cnt st) = Array (map BulkString (take (unat c) (x # xs)))
            \<and> lists (fst (command_lpop k cnt st)) = (lists st)(k \<mapsto> drop (unat c) (x # xs)))"
  by (auto simp: command_lpop_def elements_at_def list_at_def lists_insert pop_up_to_append Let_def
      split: option.splits primitive_value.splits list.splits)

section \<open>Ranges\<close>

lemma slice_incl_eq:
  assumes "a \<le> b" and "b < length xs"
  shows "slice_incl a b xs = Return (take (Suc b - a) (drop a xs))"
proof -
  have "omap (index xs) is = Return (map ((!) xs) is)" if "\<forall>i \<in> set is. i < length xs" for "is"
    using that by (induction "is") (auto simp: index_def)
  moreover have "map ((!) xs) [a..<Suc b] = take (Suc b - a) (drop a xs)"
    using assms by (intro nth_equalityI) (auto simp del: upt_Suc)
  ultimately show ?thesis
    using assms by (simp add: slice_incl_def del: upt_Suc)
qed

lemma command_lrange_slice:
  fixes start stop :: i32
  assumes "list_at k st = Some xs" and "length xs < 2 ^ 31"
    and "lo = max 0 (resolve_index start (length xs))"
    and "hi = min (int (length xs) - 1) (resolve_index stop (length xs))"
  shows "command_lrange k start stop st =
    Return (Array (map BulkString (if hi < lo then [] else take (nat (hi - lo) + 1) (drop (nat lo) xs))))"
proof -
  obtain a b where ab: "range_bounds start stop (word_of_nat (length xs)) = (a, b)"
    by fastforce
  note bounds = range_bounds_int [OF assms(2) ab, folded assms(3,4)]
  have index: "unat (scast i :: u64) = nat (sint i)" if "0 \<le> sint i" for i :: i32
  proof -
    have "uint (word_of_int (sint i) :: u64) = sint i mod 2 ^ 64"
      by (simp only: uint_word_of_int len_bit0 len_num1 len_num0) simp
    also have "\<dots> = sint i"
      using that sint_i32_bounds(2) [of i] by (intro mod_pos_pos_trivial) auto
    finally show ?thesis
      by (simp only: unat_eq_nat_uint scast_eq)
  qed
  show ?thesis
  proof (cases "hi < lo")
    case True
    with assms(1) ab bounds show ?thesis
      by (simp add: command_lrange_def)
  next
    case False
    then have "0 \<le> lo" "lo \<le> hi" "hi < int (length xs)"
      using assms(3,4) by auto
    then have "nat lo \<le> nat hi" "nat hi < length xs" "Suc (nat hi) - nat lo = nat (hi - lo) + 1"
      by linarith+
    then have "slice_incl (nat lo) (nat hi) xs = Return (take (nat (hi - lo) + 1) (drop (nat lo) xs))"
      using slice_incl_eq [of "nat lo" "nat hi" xs] by presburger
    moreover have "unat (scast a :: u64) = nat lo" "unat (scast b :: u64) = nat hi"
      using index [of a] index [of b] bounds \<open>0 \<le> lo\<close> \<open>lo \<le> hi\<close> by auto
    ultimately show ?thesis
      using assms(1) ab bounds False by (simp add: command_lrange_def)
  qed
qed

text \<open>
  C26. \<open>LRANGE\<close> returns the slice between the two indices, negative ones counted from the end
  and both cut to the list; in particular it never indexes out of range. (Lists of fewer than
  2^31 elements: the source computes with \<open>i32\<close>.)
\<close>

theorem lrange_is_slice:
  fixes start stop :: i32
  assumes "list_at k st = Some xs" and "length xs < 2 ^ 31"
    and "lo = max 0 (resolve_index start (length xs))"
    and "hi = min (int (length xs) - 1) (resolve_index stop (length xs))"
  shows "command_lrange k start stop st =
    Return (Array (map BulkString (if hi < lo then [] else take (nat (hi - lo) + 1) (drop (nat lo) xs))))"
  using assms by (rule command_lrange_slice)

theorem lrange_is_slice_witness:
  "command_lrange [107] (- 2) 9 (list_store [[1], [2], [3]]) = Return (Array [BulkString [2], BulkString [3]])"
  by (subst lrange_is_slice [where xs = "[[1], [2], [3]]", OF _ _ refl refl]) (simp_all add: resolve_index_def)

end
