(* ===== verification/StoreStreams.thy ===== *)
theory StoreStreams
  imports StoreState
begin

text \<open>
  The commands on streams, and the clients that block on them (\<open>XREAD BLOCK\<close>).
\<close>

section \<open>Reading\<close>

definition stream_at :: "key \<Rightarrow> store \<Rightarrow> redis_stream option" where
  "stream_at k st =
     (case hm_get (data st) k of
        Some v \<Rightarrow> (case prim v of Stream s \<Rightarrow> Some s | _ \<Rightarrow> None)
      | None \<Rightarrow> None)"

text \<open>\<open>format!("{}-{}", k.0, k.1)\<close>, and a row of a reply: the id and the fields and values.\<close>

definition format_stream_id :: "stream_key \<Rightarrow> bytes" where
  "format_stream_id k = u64_to_string (fst k) @ as_bytes ''-'' @ u64_to_string (snd k)"

definition stream_row :: "stream_key \<times> bytes list \<Rightarrow> resp" where
  "stream_row r = Array [BulkString (format_stream_id (fst r)), Array (map BulkString (snd r))]"

text \<open>
  \<open>stream.range((Excluded(id), Unbounded))\<close>, and \<open>stream.range((Included(a), Included(b)))\<close>
  where \<open>BTreeMap::range\<close> panics on a start above the end (an empty map is not searched:
  its \<open>range\<close> returns before it looks at the bounds).
\<close>

definition range_after :: "stream_key \<Rightarrow> redis_stream \<Rightarrow> redis_stream" where
  "range_after i s = filter (\<lambda>(k, _). i < k) s"

definition range_incl :: "stream_key \<Rightarrow> stream_key \<Rightarrow> redis_stream \<Rightarrow> redis_stream outcome" where
  "range_incl a b s =
     (if s \<noteq> [] \<and> b < a then Panic ExplicitPanic
      else Return (filter (\<lambda>(k, _). a \<le> k \<and> k \<le> b) s))"

text \<open>The loop of \<open>fetch_xread\<close> over the keys from position \<open>i\<close>; \<open>ids[i]\<close> panics out of range.\<close>

primrec fetch_xread_from :: "nat \<Rightarrow> key list \<Rightarrow> stream_key list \<Rightarrow> store \<Rightarrow> (resp list \<times> bool) outcome" where
  "fetch_xread_from i [] ids st = Return ([], True)"
| "fetch_xread_from i (k # ks) ids st =
     (case stream_at k st of
        Some s \<Rightarrow>
          obind (index ids i) (\<lambda>after.
          obind (fetch_xread_from (i + 1) ks ids st) (\<lambda>(rows, is_empty).
            let found = range_after after s
            in Return (Array [BulkString k, Array (map stream_row found)] # rows,
                       found = [] \<and> is_empty)))
      | None \<Rightarrow> fetch_xread_from (i + 1) ks ids st)"

definition fetch_xread :: "key list \<Rightarrow> stream_key list \<Rightarrow> store \<Rightarrow> (resp list \<times> bool) outcome" where
  "fetch_xread keys ids st = fetch_xread_from 0 keys ids st"

section \<open>Blocked clients\<close>

definition interested_readers :: "env \<Rightarrow> key \<Rightarrow> store \<Rightarrow> waiter list" where
  "interested_readers e k st =
     map fst (filter (\<lambda>(_, (_, keys, _)). k \<in> set keys) (hm_iter (id_order e) (stream_xread_waiters st)))"

definition serve_xread_waiter :: "waiter \<Rightarrow> store \<Rightarrow> (store \<times> effect list) outcome" where
  "serve_xread_waiter w st =
     (case hm_get (stream_xread_waiters st) w of
        Some (chan, keys, ids) \<Rightarrow>
          (let st = st\<lparr>stream_xread_waiters := hm_remove w (stream_xread_waiters st)\<rparr>
           in obind (fetch_xread keys ids st) (\<lambda>(rows, _).
                Return (st, [SendReply chan (Array rows)])))
      | None \<Rightarrow> Return (st, []))"

primrec serve_xread_waiters :: "waiter list \<Rightarrow> store \<Rightarrow> (store \<times> effect list) outcome" where
  "serve_xread_waiters [] st = Return (st, [])"
| "serve_xread_waiters (w # ws) st =
     obind (serve_xread_waiter w st) (\<lambda>(st, out).
     obind (serve_xread_waiters ws st) (\<lambda>(st, out'). Return (st, out @ out')))"

definition notify_xread_waiters :: "env \<Rightarrow> key \<Rightarrow> store \<Rightarrow> (store \<times> effect list) outcome" where
  "notify_xread_waiters e k st = serve_xread_waiters (interested_readers e k st) st"

section \<open>Operations\<close>

definition xadd_zero_error :: resp where
  "xadd_zero_error = simple_error ''ERR The ID specified in XADD must be greater than 0-0''"

definition xadd_order_error :: resp where
  "xadd_order_error = simple_error
     ''ERR The ID specified in XADD is equal or smaller than the target stream top item''"

text \<open>The checks of \<open>XADD\<close> on the new id: an error, or the id.\<close>

definition check_stream_id :: "u64 \<Rightarrow> xadd_stream_id \<Rightarrow> redis_stream \<Rightarrow> resp + stream_key" where
  "check_stream_id now ident s =
     (case next_stream_id now ident s of
        None \<Rightarrow> Inl xadd_zero_error
      | Some i \<Rightarrow>
          if i < (0, 1) then Inl xadd_zero_error
          else if bt_get s i \<noteq> None then Inl xadd_order_error
          else (case bt_last s of
                  Some (latest, _) \<Rightarrow> if i < latest then Inl xadd_order_error else Inr i
                | None \<Rightarrow> Inr i))"

definition command_xadd :: "env \<Rightarrow> key \<Rightarrow> xadd_stream_id \<Rightarrow> bytes list \<Rightarrow> store \<Rightarrow> exec_result" where
  "command_xadd e k ident field_values st =
     (let st = st\<lparr>data := hm_or_insert k \<lparr>prim = Stream [], expire_ms = None\<rparr> (data st)\<rparr>
      in case hm_get (data st) k of
           Some v \<Rightarrow>
             (case prim v of
                Stream s \<Rightarrow>
                  (case check_stream_id (now_ms e) ident s of
                     Inl err \<Rightarrow> finish st err
                   | Inr i \<Rightarrow>
                       (let st = st\<lparr>data := hm_insert k (v\<lparr>prim := Stream (bt_insert i field_values s)\<rparr>) (data st)\<rparr>
                        in obind (notify_xread_waiters e k st) (\<lambda>(st, out).
                             Return (st, out, Done (BulkString (format_stream_id i))))))
              | _ \<Rightarrow> finish st (simple_error ''ERR No stream found for given key''))
         | None \<Rightarrow> finish st (simple_error ''ERR No stream found for given key''))"

text \<open>\<open>$\<close> stands for the last id of the stream, or \<open>(0, 1)\<close> where there is none.\<close>

definition last_id :: "key \<Rightarrow> store \<Rightarrow> stream_key" where
  "last_id k st =
     (case stream_at k st of
        Some s \<Rightarrow> (case bt_last s of Some (i, _) \<Rightarrow> i | None \<Rightarrow> (0, 1))
      | None \<Rightarrow> (0, 1))"

primrec real_ids_from :: "nat \<Rightarrow> key list \<Rightarrow> xread_stream_id list \<Rightarrow> store \<Rightarrow> stream_key list outcome" where
  "real_ids_from i keys [] st = Return []"
| "real_ids_from i keys (x # xs) st =
     obind (case x of
              DollarId \<Rightarrow> obind (index keys i) (\<lambda>k. Return (last_id k st))
            | XreadExplicit tid sid \<Rightarrow> Return (tid, sid)) (\<lambda>y.
     obind (real_ids_from (i + 1) keys xs st) (\<lambda>ys. Return (y # ys)))"

definition command_xread :: "key list \<Rightarrow> u64 option \<Rightarrow> xread_stream_id list \<Rightarrow> store \<Rightarrow> exec_result" where
  "command_xread keys milliseconds ids st =
     obind (real_ids_from 0 keys ids st) (\<lambda>real_ids.
     obind (fetch_xread keys real_ids st) (\<lambda>(rows, is_empty).
       if \<not> is_empty then finish st (Array rows)
       else if milliseconds = None then finish st (Array [])
       else Return (st\<lparr>waiter_id := waiter_id st + 1\<rparr>, [],
                    BlockingXread (waiter_id st + 1) keys real_ids)))"

text \<open>\<open>{:?}\<close> of a key.\<close>

definition debug_key :: "key \<Rightarrow> bytes" where
  "debug_key k =
     as_bytes ''Key([''
     @ drop 2 (concat (map (\<lambda>b. as_bytes '', '' @ nat_to_string (unat b)) k))
     @ as_bytes ''])''"

definition command_xrange :: "key \<Rightarrow> stream_key \<Rightarrow> stream_key \<Rightarrow> store \<Rightarrow> resp outcome" where
  "command_xrange k start stop st =
     (case stream_at k st of
        Some s \<Rightarrow> obind (range_incl start stop s) (\<lambda>rows. Return (Array (map stream_row rows)))
      | None \<Rightarrow> Return (SimpleError (as_bytes ''Stream not found, XRANGE: '' @ debug_key k)))"

section \<open>The invariant\<close>

lemma keeps_serve_xread_waiter:
  assumes wf: "store_wf st" and served: "serve_xread_waiter w st = Return (st', out)"
  shows "keeps st out st'"
proof (cases "hm_get (stream_xread_waiters st) w")
  case None
  with served wf show ?thesis
    by (simp add: serve_xread_waiter_def keeps_refl)
next
  case (Some x)
  obtain ch ks ids where x: "x = (ch, ks, ids)"
    by (cases x)
  from Some served x have st': "st' = stream_xread_waiters_update (hm_remove w) st"
    and out: "\<exists>r. out = [SendReply ch r]"
    by (auto simp: serve_xread_waiter_def Let_def)
  have "waiter_id st' = waiter_id st" "no_new_waiters st st'"
    by (simp_all add: st')
  with out xread_table.take [OF wf Some, folded st'] x show ?thesis
    by (auto simp: keeps_def)
qed

lemma keeps_serve_xread_waiters:
  "store_wf st \<Longrightarrow> serve_xread_waiters ws st = Return (st', out) \<Longrightarrow> keeps st out st'"
proof (induction ws arbitrary: st st' out)
  case (Cons w ws)
  then obtain st1 out1 out2 where "serve_xread_waiter w st = Return (st1, out1)"
    "serve_xread_waiters ws st1 = Return (st', out2)" "out = out1 @ out2"
    by auto
  moreover from this have "keeps st out1 st1"
    using Cons.prems(1) by (intro keeps_serve_xread_waiter)
  moreover from this have "store_wf st1"
    by (simp add: keeps_def)
  ultimately show ?case
    using Cons.IH keeps_trans by blast
qed (simp add: keeps_refl)

lemma bt_last_present:
  assumes "bt_last s = Some (l, x)"
  shows "bt_get s l \<noteq> None"
proof -
  have "(l, x) \<in> set s"
    using assms by (metis bt_last_def last_in_set option.distinct(1) option.inject)
  then have "l \<in> fst ` set s"
    by (metis fst_conv image_eqI)
  then show ?thesis
    by (simp add: bt_get_def map_of_eq_None_iff)
qed

lemma check_stream_id_Inr:
  assumes "check_stream_id now ident s = Inr i"
  shows "(0, 1) \<le> i" and "case bt_last s of Some (l, _) \<Rightarrow> l < i | None \<Rightarrow> True"
  using assms bt_last_present [of s i]
  by (auto simp: check_stream_id_def not_less order.order_iff_strict split: option.splits if_splits prod.splits)

lemma entry_wf_add:
  assumes "entry_wf v" and "prim v = Stream s" and "check_stream_id now ident s = Inr i"
  shows "bt_insert i fvs s = s @ [(i, fvs)]" and "entry_wf (v\<lparr>prim := Stream (bt_insert i fvs s)\<rparr>)"
proof -
  have wf: "bt_wf s" "list_all (\<lambda>(i, _). (0, 1) \<le> i) s"
    using assms(1,2) by (simp_all add: entry_wf_def)
  show ins: "bt_insert i fvs s = s @ [(i, fvs)]"
    using check_stream_id_Inr(2) [OF assms(3)] wf(1) by (intro bt_insert_after_last) (auto split: option.splits)
  show "entry_wf (v\<lparr>prim := Stream (bt_insert i fvs s)\<rparr>)"
    using wf check_stream_id_Inr [OF assms(3)] bt_wf_insert [OF wf(1), of i fvs] by (simp add: entry_wf_def ins)
qed

lemma data_wf_or_insert:
  "data_wf d \<Longrightarrow> data_wf (hm_or_insert k \<lparr>prim = Stream [], expire_ms = None\<rparr> d)"
  by (simp add: hm_or_insert_def split: option.splits)

lemma good_xadd:
  assumes "store_wf st"
  shows "good st (command_xadd e k ident fvs st)"
proof -
  define st1 where "st1 = st\<lparr>data := hm_or_insert k \<lparr>prim = Stream [], expire_ms = None\<rparr> (data st)\<rparr>"
  have kept: "keeps st [] st1"
    using assms by (simp add: st1_def keeps_data data_wf_or_insert store_wf_data_wf)
  then have wf: "store_wf st1"
    by (simp add: keeps_def)
  have added: "good st (obind (notify_xread_waiters e k st2) (\<lambda>(st, out). Return (st, out, Done r)))"
    if "keeps st1 [] st2" for st2 r
  proof (rule good_obind)
    fix x
    assume "notify_xread_waiters e k st2 = Return x"
    then have "keeps st2 (snd x) (fst x)"
      using that by (intro keeps_serve_xread_waiters) (auto simp: notify_xread_waiters_def keeps_def)
    with keeps_trans [OF kept that] show "good st (case x of (st, out) \<Rightarrow> Return (st, out, Done r))"
      using keeps_trans by (fastforce split: prod.splits)
  qed
  have "data_wf (hm_insert k (v\<lparr>prim := Stream (bt_insert i fvs s)\<rparr>) (data st1))"
    if "hm_get (data st1) k = Some v" "prim v = Stream s" "check_stream_id (now_ms e) ident s = Inr i" for v s i
    using wf that by (intro data_wf_insert entry_wf_add store_wf_data_wf) (auto intro: data_wf_get store_wf_data_wf)
  then show ?thesis
    using kept wf unfolding command_xadd_def Let_def st1_def [symmetric]
    by (auto intro!: added keeps_data split: option.splits primitive_value.splits sum.splits)
qed

lemma length_real_ids: "real_ids_from i ks xs st = Return ys \<Longrightarrow> length ys = length xs"
  by (induction xs arbitrary: i ys) auto

lemma good_xread:
  assumes "store_wf st" and "length ks = length ids"
  shows "good st (command_xread ks ms ids st)"
  using assms next_waiter [OF assms(1)]
  by (auto simp: command_xread_def result_ok_def keeps_refl dest!: length_real_ids intro!: good_obind split: prod.splits)

section \<open>What a reader has not seen\<close>

definition unread :: "store \<Rightarrow> key \<Rightarrow> stream_key \<Rightarrow> redis_stream" where
  "unread st k i = (case stream_at k st of Some s \<Rightarrow> range_after i s | None \<Rightarrow> [])"

lemma unread_eq:
  "stream_at k st = None \<Longrightarrow> unread st k i = []" "stream_at k st = Some s \<Longrightarrow> unread st k i = range_after i s"
  by (simp_all add: unread_def)

text \<open>Serving the readers leaves the data alone, and removes exactly those readers.\<close>

lemma served_xread_waiter:
  assumes "serve_xread_waiter w st = Return (st', out)"
  shows "data st' = data st \<and> list_blpop_waiters st' = list_blpop_waiters st
    \<and> stream_xread_waiters st' = hm_remove w (stream_xread_waiters st)"
  using assms by (auto simp: serve_xread_waiter_def Let_def hm_remove_absent split: option.splits)

lemma served_xread_waiters:
  assumes "serve_xread_waiters ws st = Return (st', out)"
  shows "data st' = data st \<and> list_blpop_waiters st' = list_blpop_waiters st
    \<and> (\<forall>x \<in> set (stream_xread_waiters st'). x \<in> set (stream_xread_waiters st) \<and> fst x \<notin> set ws)"
  using assms
proof (induction ws arbitrary: st out)
  case (Cons w ws)
  then obtain st1 out1 out2 where first: "serve_xread_waiter w st = Return (st1, out1)"
    and rest: "serve_xread_waiters ws st1 = Return (st', out2)"
    by auto
  with served_xread_waiter [OF first] Cons.IH [OF rest] show ?case
    by (auto simp: mem_hm_remove)
qed simp

section \<open>Streams as an abstract data type\<close>

definition streams :: "store \<Rightarrow> key \<Rightarrow> redis_stream option" where
  "streams st = (\<lambda>k. stream_at k st)"

lemma streams_insert: "prim v = Stream s \<Longrightarrow> streams (st\<lparr>data := hm_insert k v (data st)\<rparr>) = (streams st)(k \<mapsto> s)"
  by (auto simp: streams_def stream_at_def map_simps)

lemma streams_same_data: "data st' = data st \<Longrightarrow> streams st' = streams st"
  by (simp add: streams_def stream_at_def)

text \<open>
  \<open>fetch_xread\<close> without its loop: a row for every key that has a stream, with the entries
  after the id that goes with the key; it never indexes out of range.
\<close>

definition rows_after :: "(key \<times> stream_key) list \<Rightarrow> store \<Rightarrow> resp list" where
  "rows_after reads st =
     map (\<lambda>(k, i). Array [BulkString k, Array (map stream_row (unread st k i))])
       (filter (\<lambda>(k, _). stream_at k st \<noteq> None) reads)"

lemma fetch_xread_from_eq:
  "i + length ks \<le> length ids \<Longrightarrow> fetch_xread_from i ks ids st =
     Return (rows_after (zip ks (drop i ids)) st, list_all (\<lambda>(k, j). unread st k j = []) (zip ks (drop i ids)))"
proof (induction ks arbitrary: i)
  case (Cons k ks)
  then have "drop i ids = ids ! i # drop (Suc i) ids"
    by (simp add: Cons_nth_drop_Suc)
  with Cons show ?case
    by (cases "stream_at k st") (auto simp: rows_after_def unread_eq index_def Let_def)
qed (simp add: rows_after_def)

lemma fetch_xread_eq:
  "length ks = length ids \<Longrightarrow> fetch_xread ks ids st =
     Return (rows_after (zip ks ids) st, list_all (\<lambda>(k, j). unread st k j = []) (zip ks ids))"
  by (simp add: fetch_xread_def fetch_xread_from_eq)

lemma serve_xread_waiters_returns:
  "store_wf st \<Longrightarrow> \<exists>st' out. serve_xread_waiters ws st = Return (st', out)"
proof (induction ws arbitrary: st)
  case (Cons w ws)
  have "\<exists>st1 out1. serve_xread_waiter w st = Return (st1, out1)"
    using xread_table.get_ok [OF Cons.prems, of w]
    by (auto simp: serve_xread_waiter_def fetch_xread_eq Let_def split: option.splits)
  then obtain st1 out1 where first: "serve_xread_waiter w st = Return (st1, out1)"
    by blast
  moreover from this have "store_wf st1"
    using keeps_serve_xread_waiter [OF Cons.prems] by (simp add: keeps_def)
  ultimately show ?case
    using Cons.IH by fastforce
qed simp

definition entries_at :: "key \<Rightarrow> store \<Rightarrow> redis_stream" where
  "entries_at k st = (case stream_at k st of Some s \<Rightarrow> s | None \<Rightarrow> [])"

text \<open>An id that may be added: positive, and above every id of the stream.\<close>

definition id_above :: "stream_key \<Rightarrow> redis_stream \<Rightarrow> bool" where
  "id_above i s \<longleftrightarrow> (0, 1) \<le> i \<and> list_all (\<lambda>(j, _). j < i) s"

lemma check_stream_id_eq:
  assumes "bt_wf s" and "next_stream_id now ident s = Some i"
  shows "check_stream_id now ident s =
    (if id_above i s then Inr i else Inl (if i < (0, 1) then xadd_zero_error else xadd_order_error))"
proof (cases "id_above i s")
  case True
  have "bt_get s i = None"
    using True by (auto simp: id_above_def list_all_iff bt_get_def map_of_eq_None_iff)
  moreover have "\<not> i < l" if "bt_last s = Some (l, x)" for l x
  proof -
    have "(l, x) \<in> set s"
      using that by (metis bt_last_def last_in_set option.distinct(1) option.inject)
    with True show ?thesis
      by (fastforce simp: id_above_def list_all_iff)
  qed
  ultimately show ?thesis
    using True assms(2) by (auto simp: check_stream_id_def id_above_def not_less split: option.splits)
next
  case False
  show ?thesis
  proof (cases "i < (0, 1)")
    case True
    with False assms(2) show ?thesis
      by (simp add: check_stream_id_def)
  next
    case small: False
    with False obtain j y where above: "(j, y) \<in> set s" "i \<le> j"
      by (auto simp: id_above_def list_all_iff not_less)
    then have "s \<noteq> []" "j \<le> fst (last s)"
      using bt_below_last [OF assms(1), of j] by force+
    then have "i \<le> fst (last s)" "bt_last s = Some (last s)"
      using above(2) by (auto simp: bt_last_def)
    then have "bt_get s i = None \<longrightarrow> i < fst (last s)"
      using bt_last_present [of s "fst (last s)" "snd (last s)"] by (auto simp: order.order_iff_strict)
    with small False assms(2) \<open>bt_last s = Some (last s)\<close> show ?thesis
      by (auto simp: check_stream_id_def split: prod.splits)
  qed
qed

lemma xadd_appended:
  assumes "store_wf st" and "hm_get (data st) k = None \<or> stream_at k st \<noteq> None"
    and "next_stream_id (now_ms e) ident (entries_at k st) = Some i"
  shows "\<exists>st' out.
    (if id_above i (entries_at k st)
     then command_xadd e k ident fvs st = Return (st', out, Done (BulkString (format_stream_id i)))
       \<and> streams st' = (streams st)(k \<mapsto> entries_at k st @ [(i, fvs)])
     else command_xadd e k ident fvs st = finish st' (if i < (0, 1) then xadd_zero_error else xadd_order_error)
       \<and> streams st' = (streams st)(k \<mapsto> entries_at k st))
    \<and> (\<forall>k'. k' \<noteq> k \<longrightarrow> hm_get (data st') k' = hm_get (data st) k')"
proof -
  define st1 where "st1 = st\<lparr>data := hm_or_insert k \<lparr>prim = Stream [], expire_ms = None\<rparr> (data st)\<rparr>"
  have wf1: "store_wf st1"
    using assms(1) by (simp add: st1_def store_wf_data data_wf_or_insert store_wf_data_wf)
  obtain v where v: "hm_get (data st1) k = Some v" "prim v = Stream (entries_at k st)"
    using assms(2) by (auto simp: st1_def map_simps entries_at_def stream_at_def
        split: option.splits primitive_value.splits)
  have streams1: "streams st1 = (streams st)(k \<mapsto> entries_at k st)"
    using assms(2) by (auto simp: st1_def streams_def stream_at_def entries_at_def map_simps fun_eq_iff
        split: option.splits primitive_value.splits)
  have others1: "\<forall>k'. k' \<noteq> k \<longrightarrow> hm_get (data st1) k' = hm_get (data st) k'"
    by (simp add: st1_def map_simps)
  have v_wf: "entry_wf v"
    using v(1) wf1 by (auto intro: data_wf_get store_wf_data_wf)
  then have "bt_wf (entries_at k st)"
    using v(2) by (simp add: entry_wf_def)
  note check = check_stream_id_eq [OF this assms(3)]
  show ?thesis
  proof (cases "id_above i (entries_at k st)")
    case False
    with v check streams1 others1 show ?thesis
      by (intro exI [of _ st1]) (simp add: command_xadd_def Let_def st1_def [symmetric])
  next
    case True
    define st2 where "st2 = st1\<lparr>data := hm_insert k
        (v\<lparr>prim := Stream (bt_insert i fvs (entries_at k st))\<rparr>) (data st1)\<rparr>"
    note add = entry_wf_add [OF v_wf v(2), of "now_ms e" ident i fvs]
    have "store_wf st2"
      using wf1 add True check by (simp add: st2_def store_wf_data store_wf_data_wf)
    then obtain st' out where ran: "notify_xread_waiters e k st2 = Return (st', out)"
      using serve_xread_waiters_returns unfolding notify_xread_waiters_def by blast
    then have same: "data st' = data st2"
      using served_xread_waiters [of _ st2 st' out] by (simp add: notify_xread_waiters_def)
    then have "streams st' = streams st2"
      by (rule streams_same_data)
    also have "\<dots> = (streams st)(k \<mapsto> entries_at k st @ [(i, fvs)])"
      using add(1) True check streams1 by (simp add: st2_def streams_insert)
    finally have "streams st' = (streams st)(k \<mapsto> entries_at k st @ [(i, fvs)])" .
    moreover have "\<forall>k'. k' \<noteq> k \<longrightarrow> hm_get (data st') k' = hm_get (data st) k'"
      using others1 by (simp add: same st2_def map_simps)
    moreover have "command_xadd e k ident fvs st = Return (st', out, Done (BulkString (format_stream_id i)))"
      using True v check ran by (simp add: command_xadd_def Let_def st1_def [symmetric] st2_def [symmetric])
    ultimately show ?thesis
      using True by auto
  qed
qed

lemma xadd_without_id:
  assumes "hm_get (data st) k = None \<or> stream_at k st \<noteq> None"
    and "next_stream_id (now_ms e) ident (entries_at k st) = None"
  shows "\<exists>st'. command_xadd e k ident fvs st = finish st' xadd_zero_error
    \<and> streams st' = (streams st)(k \<mapsto> entries_at k st)
    \<and> (\<forall>k'. k' \<noteq> k \<longrightarrow> hm_get (data st') k' = hm_get (data st) k')"
proof -
  define st1 where "st1 = st\<lparr>data := hm_or_insert k \<lparr>prim = Stream [], expire_ms = None\<rparr> (data st)\<rparr>"
  obtain v where v: "hm_get (data st1) k = Some v" "prim v = Stream (entries_at k st)"
    using assms(1) by (auto simp: st1_def map_simps entries_at_def stream_at_def
        split: option.splits primitive_value.splits)
  have "streams st1 = (streams st)(k \<mapsto> entries_at k st)"
    using assms(1) by (auto simp: st1_def streams_def stream_at_def entries_at_def map_simps fun_eq_iff
        split: option.splits primitive_value.splits)
  moreover have "\<forall>k'. k' \<noteq> k \<longrightarrow> hm_get (data st1) k' = hm_get (data st) k'"
    by (simp add: st1_def map_simps)
  moreover have "command_xadd e k ident fvs st = finish st1 xadd_zero_error"
    using v assms(2) by (simp add: command_xadd_def Let_def st1_def [symmetric] check_stream_id_def)
  ultimately show ?thesis
    by blast
qed

text \<open>
  C22. \<open>XADD\<close> refines appending: an id that is positive and above every id of the stream adds
  the entry at its end and is the reply, whoever waits for the stream; any other id, and an id that
  cannot be generated, is refused with an error and adds no entry. Nothing else in the data changes,
  but a refused \<open>XADD\<close> on a missing key leaves an empty stream there.
\<close>

theorem xadd_refines_append:
  assumes "store_wf st" and "hm_get (data st) k = None \<or> stream_at k st \<noteq> None"
  shows "\<exists>st' out.
    (case next_stream_id (now_ms e) ident (entries_at k st) of
       Some i \<Rightarrow>
         if id_above i (entries_at k st)
         then command_xadd e k ident fvs st = Return (st', out, Done (BulkString (format_stream_id i)))
           \<and> streams st' = (streams st)(k \<mapsto> entries_at k st @ [(i, fvs)])
         else command_xadd e k ident fvs st = finish st' (if i < (0, 1) then xadd_zero_error else xadd_order_error)
           \<and> streams st' = (streams st)(k \<mapsto> entries_at k st)
     | None \<Rightarrow> command_xadd e k ident fvs st = finish st' xadd_zero_error
         \<and> streams st' = (streams st)(k \<mapsto> entries_at k st))
    \<and> (\<forall>k'. k' \<noteq> k \<longrightarrow> hm_get (data st') k' = hm_get (data st) k')"
proof (cases "next_stream_id (now_ms e) ident (entries_at k st)")
  case None
  with xadd_without_id [OF assms(2) None, of fvs] show ?thesis
    by auto
next
  case (Some i)
  from xadd_appended [OF assms Some, of fvs] show ?thesis
    unfolding Some option.case .
qed

text \<open>A store with one stream that nobody reads.\<close>

definition stream_store :: "redis_stream \<Rightarrow> store" where
  "stream_store s = fresh_store False plain_config [([115], \<lparr>prim = Stream s, expire_ms = None\<rparr>)]"

lemma stream_store_facts [simp]:
  "store_wf (stream_store s) \<longleftrightarrow> bt_wf s \<and> list_all (\<lambda>(i, _). (0, 1) \<le> i) s"
  "stream_at [115] (stream_store s) = Some s"
  by (simp_all add: stream_store_def fresh_store_def store_wf_def data_wf_def hm_wf_def watched_wf_def sets_wf_def
      waiters_wf_def waiter_ids_def parties_wf_def pubsub_new_def zsets_wf_def stream_at_def hm_get_def entry_wf_def)

definition two_entries :: redis_stream where
  "two_entries = [((1, 5), [[97], [98]]), ((2, 0), [[99], [100]])]"

lemma two_entries_wf [simp]: "bt_wf two_entries" "list_all (\<lambda>(i, _). (0, 1) \<le> i) two_entries"
  by (code_simp)+

theorem xadd_refines_append_witness:
  "\<exists>st' out. command_xadd plain_env [115] (AutoGenSeq 2) [[1]] (stream_store two_entries) =
       Return (st', out, Done (BulkString (format_stream_id (2, 1))))
     \<and> streams st' [115] = Some (two_entries @ [((2, 1), [[1]])])"
proof -
  have "next_stream_id now (AutoGenSeq 2) two_entries = Some (2, 1)" for now
    by (simp add: next_stream_id_def two_entries_def bt_last_def)
  moreover have "id_above (2, 1) two_entries"
    by code_simp
  ultimately show ?thesis
    using xadd_refines_append [of "stream_store two_entries" "[115]" plain_env "AutoGenSeq 2" "[[1]]"]
    by (auto simp: entries_at_def)
qed

text \<open>
  What is added can be read back: after an accepted \<open>XADD\<close>, \<open>XRANGE\<close> from \<open>-\<close> to \<open>+\<close>
  returns the entries that were there and the new one, in this order, and nothing else.
\<close>

theorem xrange_after_xadd:
  assumes "store_wf st" and "hm_get (data st) k = None \<or> stream_at k st \<noteq> None"
    and "next_stream_id (now_ms e) ident (entries_at k st) = Some i" and "id_above i (entries_at k st)"
    and "command_xadd e k ident fvs st = Return (st', out, r)"
  shows "command_xrange k (0, 1) (- 1, - 1) st' = Return (Array (map stream_row (entries_at k st @ [(i, fvs)])))"
proof -
  have "streams st' = (streams st)(k \<mapsto> entries_at k st @ [(i, fvs)])"
    using xadd_appended [OF assms(1-3), of fvs] assms(4,5) by auto
  then have at: "stream_at k st' = Some (entries_at k st @ [(i, fvs)])"
    by (metis fun_upd_same streams_def)
  have "store_wf st'"
    using good_xadd [OF assms(1), of e k ident fvs] assms(5) by (simp add: keeps_def)
  moreover obtain v where v: "hm_get (data st') k = Some v" "prim v = Stream (entries_at k st @ [(i, fvs)])"
    using at by (auto simp: stream_at_def split: option.splits primitive_value.splits)
  ultimately have "entry_wf v"
    by (auto intro: data_wf_get store_wf_data_wf)
  then have low: "\<forall>(j, _) \<in> set (entries_at k st @ [(i, fvs)]). (0, 1) \<le> j"
    using v(2) by (simp add: entry_wf_def list_all_iff)
  have "x < - 1 \<or> x = - 1" for x :: u64
    using word_order.extremum [of x] by (simp add: order.order_iff_strict)
  then have high: "j \<le> (- 1, - 1)" for j :: stream_key
    by (cases j) (auto simp: less_prod_simp order.order_iff_strict)
  have "range_incl (0, 1) (- 1, - 1) (entries_at k st @ [(i, fvs)]) = Return (entries_at k st @ [(i, fvs)])"
    using low high by (auto simp: range_incl_def less_prod_simp intro!: filter_True)
  then show ?thesis
    by (simp add: command_xrange_def at)
qed

theorem xrange_after_xadd_witness:
  "\<exists>st' out r. command_xadd e [115] (XaddExplicit 2 7) [[1]] (stream_store two_entries) = Return (st', out, r)
     \<and> command_xrange [115] (0, 1) (- 1, - 1) st' = Return (Array (map stream_row (two_entries @ [((2, 7), [[1]])])))"
proof -
  have nxt: "next_stream_id now (XaddExplicit 2 7) two_entries = Some (2, 7)" for now
    by (simp add: next_stream_id_def)
  have above: "id_above (2, 7) two_entries"
    by code_simp
  obtain st' out where "command_xadd e [115] (XaddExplicit 2 7) [[1]] (stream_store two_entries) =
      Return (st', out, Done (BulkString (format_stream_id (2, 7))))"
    using xadd_appended [of "stream_store two_entries" "[115]" e "XaddExplicit 2 7" "(2, 7)" "[[1]]"] nxt above
    by (auto simp: entries_at_def)
  then show ?thesis
    using xrange_after_xadd [of "stream_store two_entries" "[115]" e "XaddExplicit 2 7" "(2, 7)"] nxt above
    by (auto simp: entries_at_def)
qed

text \<open>The ids of an \<open>XREAD\<close>: \<open>$\<close> is the last id of its stream.\<close>

definition resolve_id :: "store \<Rightarrow> key \<Rightarrow> xread_stream_id \<Rightarrow> stream_key" where
  "resolve_id st k x = (case x of DollarId \<Rightarrow> last_id k st | XreadExplicit tid sid \<Rightarrow> (tid, sid))"

lemma real_ids_from_eq:
  "i + length xs = length ks \<Longrightarrow> real_ids_from i ks xs st = Return (map2 (resolve_id st) (drop i ks) xs)"
proof (induction xs arbitrary: i)
  case (Cons x xs)
  then have "drop i ks = ks ! i # drop (Suc i) ks"
    by (simp add: Cons_nth_drop_Suc)
  with Cons show ?case
    by (cases x) (simp_all add: resolve_id_def index_def)
qed simp

text \<open>
  What a client that reads a stream is told, written down without the code: the last id of a
  stream is the largest one, an entry is new when its id is larger than the one asked for, and it is
  shown as its id in decimal with a dash and its fields as bulk strings.
\<close>

definition newest_id :: "redis_stream \<Rightarrow> stream_key" where
  "newest_id s = (if s = [] then (0, 1) else Max (fst ` set s))"

definition asked_id :: "store \<Rightarrow> key \<Rightarrow> xread_stream_id \<Rightarrow> stream_key" where
  "asked_id st k x = (case x of DollarId \<Rightarrow> newest_id (entries_at k st) | XreadExplicit tid sid \<Rightarrow> (tid, sid))"

definition new_entries :: "store \<Rightarrow> (key \<times> stream_key) list \<Rightarrow> (key \<times> redis_stream) list" where
  "new_entries st reads =
     map (\<lambda>(k, i). (k, [(j, fvs) \<leftarrow> entries_at k st. i < j])) [(k, i) \<leftarrow> reads. streams st k \<noteq> None]"

definition shown_entry :: "stream_key \<times> bytes list \<Rightarrow> resp" where
  "shown_entry = (\<lambda>((tid, sid), fvs).
     Array [BulkString (u64_to_string tid @ [45] @ u64_to_string sid), Array (map BulkString fvs)])"

definition shown_stream :: "key \<times> redis_stream \<Rightarrow> resp" where
  "shown_stream = (\<lambda>(k, found). Array [BulkString k, Array (map shown_entry found)])"

lemma last_id_newest:
  assumes "store_wf st"
  shows "last_id k st = newest_id (entries_at k st)"
proof (cases "entries_at k st = []")
  case False
  then obtain s where s: "stream_at k st = Some s" "entries_at k st = s" "s \<noteq> []"
    by (auto simp: entries_at_def split: option.splits)
  then obtain v where "hm_get (data st) k = Some v" "prim v = Stream s"
    by (auto simp: stream_at_def split: option.splits primitive_value.splits)
  then have "bt_wf s"
    using assms by (auto simp: entry_wf_def dest!: data_wf_get [OF store_wf_data_wf])
  then have "Max (fst ` set s) = fst (last s)"
    using s(3) bt_below_last by (intro Max_eqI) auto
  with s show ?thesis
    by (simp add: last_id_def newest_id_def bt_last_def split: prod.splits)
qed (auto simp: last_id_def newest_id_def entries_at_def bt_last_def split: option.splits)

lemma resolve_id_asked: "store_wf st \<Longrightarrow> resolve_id st k x = asked_id st k x"
  by (simp add: resolve_id_def asked_id_def last_id_newest split: xread_stream_id.split)

lemma unread_new: "unread st k i = [(j, fvs) \<leftarrow> entries_at k st. i < j]"
  by (simp add: unread_def entries_at_def range_after_def split: option.splits)

lemma rows_after_shown: "rows_after reads st = map shown_stream (new_entries st reads)"
  by (auto simp: rows_after_def new_entries_def streams_def unread_new shown_stream_def shown_entry_def stream_row_def
      format_stream_id_def byte_simps)

lemma unread_none: "streams st k = None \<Longrightarrow> unread st k i = []"
  by (simp add: streams_def unread_eq)

text \<open>
  C23. \<open>XREAD\<close> is its specification: with as many ids as keys (which decoding guarantees) it
  never panics. If any of its streams has an entry above the id asked for (\<open>$\<close> is the largest id of the
  stream), it returns, for every key that holds a stream, exactly these entries in their
  order; if there is none at all, it replies an empty array, or, with \<open>BLOCK\<close>, blocks with those
  ids and a new waiter.
\<close>

theorem xread_returns_new_entries:
  assumes "store_wf st" and "length ks = length xs"
  shows "command_xread ks ms xs st =
    (let ids = map2 (asked_id st) ks xs; found = new_entries st (zip ks ids) in
     if \<exists>(k, s) \<in> set found. s \<noteq> [] then Return (st, [], Done (Array (map shown_stream found)))
     else if ms = None then Return (st, [], Done (Array []))
     else Return (st\<lparr>waiter_id := waiter_id st + 1\<rparr>, [], BlockingXread (waiter_id st + 1) ks ids))"
proof -
  have "resolve_id st = asked_id st"
    using resolve_id_asked [OF assms(1)] by blast
  moreover have "list_all (\<lambda>(k, i). unread st k i = []) reads \<longleftrightarrow> \<not> (\<exists>(k, s) \<in> set (new_entries st reads). s \<noteq> [])" for reads
    using unread_none by (fastforce simp: list_all_iff new_entries_def unread_new)
  ultimately show ?thesis
    using assms(2) by (simp add: command_xread_def real_ids_from_eq fetch_xread_eq rows_after_shown Let_def)
qed

theorem xread_returns_new_entries_witness:
  "command_xread [[115]] (Some 0) [DollarId] (stream_store two_entries) =
     Return ((stream_store two_entries)\<lparr>waiter_id := 1\<rparr>, [], BlockingXread 1 [[115]] [(2, 0)])"
proof -
  have stored: "entries_at [115] (stream_store two_entries) = two_entries" "streams (stream_store two_entries) [115] = Some two_entries"
    "waiter_id (stream_store two_entries) = 0"
    by (simp_all add: entries_at_def streams_def) (simp add: stream_store_def fresh_store_def)
  have "Max (fst ` set two_entries) = (2, 0)"
    by (rule Max_eqI) (auto simp: two_entries_def less_prod_simp word_le_nat_alt)
  then have "newest_id two_entries = (2, 0)"
    by (simp add: newest_id_def two_entries_def)
  then have asked: "asked_id (stream_store two_entries) [115] DollarId = (2, 0)"
    by (simp add: asked_id_def stored)
  have "new_entries (stream_store two_entries) [([115], (2, 0))] = [([115], [])]"
    by (simp add: new_entries_def stored) code_simp
  then show ?thesis
    by (subst xread_returns_new_entries) (simp_all add: asked stored)
qed

end
