(* ===== verification/StoreTx.thy ===== *)
theory StoreTx
  imports StoreState
begin

text \<open>
  Optimistic locking (\<open>WATCH\<close>): \<open>watched_keys\<close> maps a watched key to the clients that watch
  it; a command that modifies the key adds its client, and a transaction fails when one of
  the keys its client watches names another client as well.
\<close>

definition mark_modified :: "client_id \<Rightarrow> key list \<Rightarrow> store \<Rightarrow> store" where
  "mark_modified c ks st =
     st\<lparr>watched_keys := fold (\<lambda>k. hm_modify k (hs_insert c)) ks (watched_keys st)\<rparr>"

definition command_watch :: "client_id \<Rightarrow> key list \<Rightarrow> store \<Rightarrow> store \<times> resp" where
  "command_watch c ks st =
     (st\<lparr>watched_keys := fold (\<lambda>k. hm_modify_or k (hs_insert c) [c]) ks (watched_keys st)\<rparr>,
      simple_string ''OK'')"

text \<open>The client no longer watches anything; keys without a watcher are dropped.\<close>

definition forget_watches :: "client_id \<Rightarrow> (key, client_id hashset) hashmap \<Rightarrow> (key, client_id hashset) hashmap" where
  "forget_watches c w = filter (\<lambda>(_, cs). cs \<noteq> []) (map (\<lambda>(k, cs). (k, hs_remove c cs)) w)"

definition cleanup_watches :: "client_id \<Rightarrow> store \<Rightarrow> store" where
  "cleanup_watches c st = st\<lparr>watched_keys := forget_watches c (watched_keys st)\<rparr>"

definition command_unwatch :: "client_id \<Rightarrow> store \<Rightarrow> store \<times> resp" where
  "command_unwatch c st = (cleanup_watches c st, simple_string ''OK'')"

definition command_discard :: "client_id \<Rightarrow> store \<Rightarrow> store \<times> resp" where
  "command_discard c st = (cleanup_watches c st, simple_string ''OK'')"

definition lock_failed :: "client_id \<Rightarrow> store \<Rightarrow> bool" where
  "lock_failed c st = list_ex (\<lambda>(_, cs). c \<in> set cs \<and> 1 < length cs) (watched_keys st)"

section \<open>The invariant\<close>

lemma watched_wf_modify: "watched_wf w \<Longrightarrow> watched_wf (hm_modify k (hs_insert c) w)"
  by (auto simp: watched_wf_def) (auto simp: list_all_iff hm_modify_def hs_insert_def split: if_splits)

lemma watched_wf_modify_or: "watched_wf w \<Longrightarrow> watched_wf (hm_modify_or k (hs_insert c) [c] w)"
  by (auto simp: hm_modify_or_def watched_wf_modify split: option.splits)
    (auto simp: watched_wf_def sets_wf_def list_all_iff mem_hm_insert)

lemma hs_remove_all [simp]: "distinct cs \<Longrightarrow> distinct (hs_remove c cs)"
  by simp

lemma map_fst_map_snd: "map fst (map (\<lambda>(k, v). (k, f v)) m) = map fst m"
  by (induction m) auto

lemma watched_wf_forget:
  assumes "watched_wf w"
  shows "watched_wf (forget_watches c w)"
proof -
  have "hm_wf (map (\<lambda>(k, cs). (k, hs_remove c cs)) w)"
    using assms by (simp only: hm_wf_def map_fst_map_snd) (simp add: watched_wf_def sets_wf_def hm_wf_def)
  with assms show ?thesis
    by (auto simp: watched_wf_def sets_wf_def forget_watches_def list_all_iff)
qed

lemma keeps_watched:
  assumes "store_wf st" and "watched_wf w"
  shows "keeps st [] (st\<lparr>watched_keys := w\<rparr>)"
  using assms by (intro keeps_same_waiters) (auto simp: same_waiters_def store_wf_def parties_wf_def)

lemma watched_wf_folds:
  "watched_wf w \<Longrightarrow> watched_wf (fold (\<lambda>k. hm_modify k (hs_insert c)) ks w)"
  "watched_wf w \<Longrightarrow> watched_wf (fold (\<lambda>k. hm_modify_or k (hs_insert c) [c]) ks w)"
  by (induction ks arbitrary: w) (auto simp: watched_wf_modify watched_wf_modify_or)

lemma store_wf_watched: "store_wf st \<Longrightarrow> watched_wf (watched_keys st)"
  by (simp add: store_wf_def)

lemma keeps_tx:
  assumes "store_wf st"
  shows "keeps st [] (mark_modified c ks st)" "keeps st [] (fst (command_watch c ks st))"
    "keeps st [] (cleanup_watches c st)" "keeps st [] (fst (command_unwatch c st))"
    "keeps st [] (fst (command_discard c st))"
  using assms
  by (simp_all add: mark_modified_def command_watch_def cleanup_watches_def command_unwatch_def
      command_discard_def keeps_watched watched_wf_folds watched_wf_forget store_wf_watched)

end
