(* ===== verification/StoreRepl.thy ===== *)
theory StoreRepl
  imports StoreState
begin

text \<open>
  Replication as the store sees it: the offsets the replicas acknowledged, and the clients
  that \<open>WAIT\<close> for them.
\<close>

definition replicas_count :: "store \<Rightarrow> nat" where
  "replicas_count st = length (filter (\<lambda>(_, r). r) (clients st))"

definition count_acked :: "u64 \<Rightarrow> store \<Rightarrow> u64" where
  "count_acked target st =
     (if target = 0 then word_of_nat (replicas_count st)
      else word_of_nat (length (filter (\<lambda>(_, ack). target \<le> ack) (replica_acks st))))"

primrec answer_waits :: "waiter list \<Rightarrow> store \<Rightarrow> (store \<times> effect list) outcome" where
  "answer_waits [] st = Return (st, [])"
| "answer_waits (w # ws) st =
     obind (unwrap (hm_get (wait_waiters st) w)) (\<lambda>(chan, _, target).
       let st = st\<lparr>wait_waiters := hm_remove w (wait_waiters st)\<rparr> in
     obind (answer_waits ws st) (\<lambda>(st', out).
       Return (st', SendReply chan (Integer (count_acked target st)) # out)))"

definition command_replconf_ack :: "env \<Rightarrow> client_id \<Rightarrow> u64 \<Rightarrow> store \<Rightarrow> exec_result" where
  "command_replconf_ack e c ack_bytes st =
     (let st = st\<lparr>replica_acks := hm_insert c ack_bytes (replica_acks st)\<rparr>;
          finished = map fst (filter (\<lambda>(_, (_, numreplicas, target)). numreplicas \<le> count_acked target st)
                                (hm_iter (id_order e) (wait_waiters st)))
      in obind (answer_waits finished st) (\<lambda>(st, out). Return (st, out, NoResult)))"

definition command_wait :: "u64 \<Rightarrow> u64 \<Rightarrow> store \<Rightarrow> store \<times> try_execute_result" where
  "command_wait numreplicas timeout st =
     (let current_replicas = count_acked (master_ack st) st
      in if numreplicas \<le> current_replicas then (st, Done (Integer current_replicas))
         else (st\<lparr>waiter_id := waiter_id st + 1\<rparr>, WaitCommand (waiter_id st + 1) numreplicas timeout))"

section \<open>The invariant\<close>

lemma keeps_answer_waits:
  "store_wf st \<Longrightarrow> answer_waits ws st = Return (st', out) \<Longrightarrow> keeps st out st'"
proof (induction ws arbitrary: st st' out)
  case (Cons w ws)
  then obtain ch n t where get: "hm_get (wait_waiters st) w = Some (ch, n, t)"
    by auto
  define st1 where "st1 = wait_waiters_update (hm_remove w) st"
  have taken: "store_wf st1" "pending st = add_mset ch (pending st1)"
    using wait_table.take [OF Cons.prems(1) get] by (simp_all add: st1_def)
  have "wait_waiters_update (\<lambda>_. hm_remove w (wait_waiters st)) st = st1"
    by (simp add: st1_def)
  with Cons.prems(2) get obtain out1 r where "answer_waits ws st1 = Return (st', out1)" "out = SendReply ch r # out1"
    by auto
  moreover from this Cons.IH taken(1) have "keeps st1 out1 st'"
    by blast
  moreover have "waiter_id st1 = waiter_id st" "no_new_waiters st st1"
    by (simp_all add: st1_def)
  ultimately show ?case
    using taken(2) no_new_waiters_trans by (auto simp: keeps_def)
qed (simp add: keeps_refl)

lemma good_replconf_ack:
  assumes "store_wf st"
  shows "good st (command_replconf_ack e c n st)"
proof -
  define st1 where "st1 = st\<lparr>replica_acks := hm_insert c n (replica_acks st)\<rparr>"
  have kept: "keeps st [] st1"
    using assms by (intro keeps_same_waiters) (auto simp: same_waiters_def store_wf_def parties_wf_def st1_def)
  have "good st (obind (answer_waits ws st1) (\<lambda>(st, out). Return (st, out, NoResult)))" for ws
  proof (rule good_obind)
    fix x
    assume "answer_waits ws st1 = Return x"
    then have "keeps st1 (snd x) (fst x)"
      using kept by (intro keeps_answer_waits) (auto simp: keeps_def)
    with kept show "good st (case x of (st, out) \<Rightarrow> Return (st, out, NoResult))"
      using keeps_trans by (fastforce split: prod.splits)
  qed
  then show ?thesis
    by (simp add: command_replconf_ack_def Let_def st1_def)
qed

lemma good_wait:
  assumes "store_wf st" and "command_wait n t st = (st', r)"
  shows "keeps st [] st' \<and> result_ok st' r"
  using assms next_waiter [OF assms(1)]
  by (auto simp: command_wait_def Let_def result_ok_def keeps_refl split: if_splits)

section \<open>Waiting for acknowledgements\<close>

lemma count_acked_cong:
  "clients st' = clients st \<Longrightarrow> replica_acks st' = replica_acks st \<Longrightarrow> count_acked target st' = count_acked target st"
  by (simp add: count_acked_def replicas_count_def)

lemma answer_waits_outcome:
  assumes "answer_waits ws st = Return (st', out)" and "distinct ws" and "hm_wf (wait_waiters st)"
  shows "clients st' = clients st \<and> replica_acks st' = replica_acks st
    \<and> set (wait_waiters st') = {x \<in> set (wait_waiters st). fst x \<notin> set ws}
    \<and> set out = {SendReply ch (Integer (count_acked target st)) | w ch n target.
        (w, ch, n, target) \<in> set (wait_waiters st) \<and> w \<in> set ws}"
  using assms
proof (induction ws arbitrary: st out)
  case (Cons w ws)
  define st1 where "st1 = st\<lparr>wait_waiters := hm_remove w (wait_waiters st)\<rparr>"
  from Cons.prems(1) obtain ch n target out1 where get: "hm_get (wait_waiters st) w = Some (ch, n, target)"
    and rest: "answer_waits ws st1 = Return (st', out1)"
    and out: "out = SendReply ch (Integer (count_acked target st1)) # out1"
    by (auto simp: Let_def st1_def)
  have same: "count_acked t st1 = count_acked t st" for t
    by (rule count_acked_cong) (simp_all add: st1_def)
  have tab: "x \<in> set (wait_waiters st1) \<longleftrightarrow> x \<in> set (wait_waiters st) \<and> fst x \<noteq> w" for x
    by (simp add: st1_def mem_hm_remove)
  have only: "(w, v) \<in> set (wait_waiters st) \<longleftrightarrow> v = (ch, n, target)" for v
    using get hm_get_iff_mem [OF Cons.prems(3), of w v] by auto
  have IH: "clients st' = clients st1 \<and> replica_acks st' = replica_acks st1
    \<and> set (wait_waiters st') = {x \<in> set (wait_waiters st1). fst x \<notin> set ws}
    \<and> set out1 = {SendReply ch (Integer (count_acked target st1)) | w ch n target.
        (w, ch, n, target) \<in> set (wait_waiters st1) \<and> w \<in> set ws}"
    using Cons.IH [OF rest] Cons.prems(2,3) by (simp add: st1_def)
  have "clients st1 = clients st" "replica_acks st1 = replica_acks st"
    by (simp_all add: st1_def)
  moreover have "{x \<in> set (wait_waiters st1). fst x \<notin> set ws} = {x \<in> set (wait_waiters st). fst x \<notin> set (w # ws)}"
    by (auto simp: tab)
  moreover have "insert (SendReply ch (Integer (count_acked target st)))
      {SendReply ch (Integer (count_acked target st)) | w ch n target.
        (w, ch, n, target) \<in> set (wait_waiters st1) \<and> w \<in> set ws} =
      {SendReply ch (Integer (count_acked target st)) | w' ch n target.
        (w', ch, n, target) \<in> set (wait_waiters st) \<and> w' \<in> set (w # ws)}"
    using only Cons.prems(2) by (fastforce simp: tab)
  ultimately show ?case
    using IH by (simp add: out same)
qed auto

lemma acknowledgement_outcome:
  assumes "store_wf st" and "env_ok e" and "command_replconf_ack e c n st = Return (st', out, r)"
  shows "clients st' = clients st \<and> hm_get (replica_acks st') = (hm_get (replica_acks st))(c \<mapsto> n)
    \<and> set (wait_waiters st') = {(w, ch, num, target) \<in> set (wait_waiters st). count_acked target st' < num}
    \<and> set out = {SendReply ch (Integer (count_acked target st')) | w ch num target.
        (w, ch, num, target) \<in> set (wait_waiters st) \<and> num \<le> count_acked target st'}"
proof -
  define st1 where "st1 = st\<lparr>replica_acks := hm_insert c n (replica_acks st)\<rparr>"
  define ready where "ready = map fst (filter (\<lambda>(_, (_, num, target)). num \<le> count_acked target st1)
      (hm_iter (id_order e) (wait_waiters st1)))"
  have run: "answer_waits ready st1 = Return (st', out)"
    using assms(3) by (auto simp: command_replconf_ack_def Let_def st1_def ready_def)
  have tab: "wait_waiters st1 = wait_waiters st"
    by (simp add: st1_def)
  have wf: "hm_wf (wait_waiters st)" and order: "iteration_order (id_order e)"
    using assms(1,2) wait_table.table_wf by (simp_all add: env_ok_def)
  have "distinct (map fst (hm_iter (id_order e) (wait_waiters st)))"
    using wf order by (simp add: map_fst_hm_iter hm_wf_def iteration_order_distinct)
  then have "distinct ready"
    unfolding ready_def tab by (rule distinct_map_filter)
  note out = answer_waits_outcome [OF run this, unfolded tab, OF wf]
  have acked: "count_acked t st' = count_acked t st1" for t
    using out by (intro count_acked_cong) simp_all
  have ready: "w \<in> set ready \<longleftrightarrow> num \<le> count_acked target st'"
    if mem: "(w, ch, num, target) \<in> set (wait_waiters st)" for w ch num target
  proof -
    have "w \<in> set ready \<longleftrightarrow> (\<exists>ch num target. (w, ch, num, target) \<in> set (wait_waiters st) \<and> num \<le> count_acked target st')"
      by (force simp: ready_def tab set_hm_iter [OF order wf] acked)
    moreover have "v = (ch, num, target)" if "(w, v) \<in> set (wait_waiters st)" for v
      using mem that hm_get_iff_mem [OF wf, of w] by (metis option.inject)
    ultimately show ?thesis
      using mem by blast
  qed
  have "clients st' = clients st \<and> hm_get (replica_acks st') = (hm_get (replica_acks st))(c \<mapsto> n)"
    using out by (auto simp: st1_def map_simps fun_eq_iff)
  moreover have "set (wait_waiters st') = {(w, ch, num, target) \<in> set (wait_waiters st). count_acked target st' < num}"
    using out ready by (auto simp: not_le [symmetric])
  moreover have "set out = {SendReply ch (Integer (count_acked target st')) | w ch num target.
      (w, ch, num, target) \<in> set (wait_waiters st) \<and> num \<le> count_acked target st'}"
    unfolding acked using out ready [unfolded acked] by blast
  ultimately show ?thesis
    by blast
qed

text \<open>
  The clients that have acknowledged a target: those whose last offset has reached it; for the
  target 0 (nothing was ever written) all replicas.
\<close>

definition caught_up :: "u64 \<Rightarrow> store \<Rightarrow> client_id set" where
  "caught_up target st =
     (if target = 0 then {c. hm_get (clients st) c = Some True}
      else {c. \<exists>ack. hm_get (replica_acks st) c = Some ack \<and> target \<le> ack})"

lemma count_filter_card:
  assumes "hm_wf m"
  shows "length (filter (\<lambda>(_, v). P v) m) = card {k. \<exists>v. hm_get m k = Some v \<and> P v}"
proof -
  let ?f = "filter (\<lambda>(_, v). P v) m"
  have "distinct (map fst ?f)"
    using assms by (simp add: hm_wf_def distinct_map_filter)
  then have "length ?f = card (set (map fst ?f))"
    by (metis distinct_card length_map)
  moreover have "set (map fst ?f) = {k. \<exists>v. hm_get m k = Some v \<and> P v}"
    using hm_get_iff_mem [OF assms] by (force simp: image_iff)
  ultimately show ?thesis
    by simp
qed

lemma count_acked_caught_up:
  assumes "store_wf st"
  shows "count_acked target st = word_of_nat (card (caught_up target st))"
proof -
  have "hm_wf (clients st)" "hm_wf (replica_acks st)"
    using assms by (simp_all add: store_wf_def parties_wf_def)
  from count_filter_card [OF this(1), of "\<lambda>r. r"] count_filter_card [OF this(2), of "\<lambda>ack. target \<le> ack"]
  moreover have "{k. \<exists>v. hm_get (clients st) k = Some v \<and> v} = {c. hm_get (clients st) c = Some True}"
    by auto
  ultimately show ?thesis
    by (simp add: count_acked_def replicas_count_def caught_up_def)
qed

text \<open>
  C30. An acknowledgement from a replica is recorded, and afterwards no \<open>WAIT\<close> is left whose
  quorum is met: exactly the blocked clients whose number of replicas have now acknowledged
  their target (with an offset that has reached it) are answered, each with the number of those that
  have, and taken from the table.
\<close>

theorem acknowledgement_answers_waits:
  assumes "store_wf st" and "env_ok e" and "command_replconf_ack e c n st = Return (st', out, r)"
  shows "clients st' = clients st \<and> hm_get (replica_acks st') = (hm_get (replica_acks st))(c \<mapsto> n)
    \<and> set (wait_waiters st') =
        {(w, ch, num, target) \<in> set (wait_waiters st). word_of_nat (card (caught_up target st')) < num}
    \<and> set out = {SendReply ch (Integer (word_of_nat (card (caught_up target st')))) | w ch num target.
        (w, ch, num, target) \<in> set (wait_waiters st) \<and> num \<le> word_of_nat (card (caught_up target st'))}"
proof -
  have "store_wf st'"
    using good_replconf_ack [OF assms(1), of e c n] assms(3) by (simp add: keeps_def)
  from acknowledgement_outcome [OF assms] show ?thesis
    unfolding count_acked_caught_up [OF \<open>store_wf st'\<close>] .
qed

text \<open>Two clients wait for the offset 37; a replica reports exactly it.\<close>

definition waiting_store :: store where
  "waiting_store = (fresh_store False plain_config [])\<lparr>wait_waiters := [(1, 11, 1, 37), (2, 12, 2, 37)], waiter_id := 2\<rparr>"

theorem acknowledgement_answers_waits_witness:
  "\<exists>st' out r. command_replconf_ack plain_env 4 37 waiting_store = Return (st', out, r)
     \<and> set out = {SendReply 11 (Integer 1)} \<and> set (wait_waiters st') = {(2, 12, 2, 37)}"
proof -
  have "store_wf waiting_store"
    by (simp add: waiting_store_def fresh_store_def store_wf_def data_wf_def hm_wf_def watched_wf_def sets_wf_def
        waiters_wf_def waiter_ids_def parties_wf_def pubsub_new_def zsets_wf_def)
  moreover obtain st' out r where run: "command_replconf_ack plain_env 4 37 waiting_store = Return (st', out, r)"
    by (simp add: command_replconf_ack_def waiting_store_def fresh_store_def plain_env_def hm_iter_def hm_get_def
        hm_remove_def count_acked_def word_le_nat_alt Let_def)
  ultimately have spec: "hm_get (replica_acks st') = (hm_get (replica_acks waiting_store))(4 \<mapsto> 37)"
    "set (wait_waiters st') =
       {(w, ch, num, target) \<in> set (wait_waiters waiting_store). word_of_nat (card (caught_up target st')) < num}"
    "set out = {SendReply ch (Integer (word_of_nat (card (caught_up target st')))) | w ch num target.
       (w, ch, num, target) \<in> set (wait_waiters waiting_store) \<and> num \<le> word_of_nat (card (caught_up target st'))}"
    using acknowledgement_answers_waits [of waiting_store plain_env 4 37] plain_env_ok by blast+
  have "caught_up 37 st' = {4}"
    unfolding caught_up_def spec(1) by (auto simp: waiting_store_def fresh_store_def hm_get_def)
  then have one: "word_of_nat (card (caught_up 37 st')) = (1 :: u64)"
    by simp
  have waits: "set (wait_waiters waiting_store) = {(1, 11, 1, 37), (2, 12, 2, 37)}"
    by (simp add: waiting_store_def)
  have "set (wait_waiters st') = {(2, 12, 2, 37)}"
    unfolding spec(2) waits using one by (auto simp: word_less_nat_alt)
  moreover have "set out = {SendReply 11 (Integer 1)}"
    unfolding spec(3) waits using one by (auto simp: word_le_nat_alt)
  ultimately show ?thesis
    using run by blast
qed

end
