(* ===== verification/StoreMisc.thy ===== *)
theory StoreMisc
  imports StoreState
begin

text \<open>
  Publish and subscribe, sorted sets, geospatial commands and access control, as commands of
  the store.
\<close>

section \<open>Publish and subscribe\<close>

text \<open>\<open>channels[0]\<close> panics when there is none.\<close>

definition subscription_reply :: "string \<Rightarrow> client_id \<Rightarrow> bytes list \<Rightarrow> store \<Rightarrow> resp outcome" where
  "subscription_reply what c channels st =
     obind (index channels 0) (\<lambda>first.
       Return (Array [bulk_string what, BulkString first,
                      Integer (word_of_nat (get_client_subscriptions c (pubsub st)))]))"

definition command_subscribe :: "client_id \<Rightarrow> bytes list \<Rightarrow> store \<Rightarrow> exec_result" where
  "command_subscribe c channels st =
     (let st = st\<lparr>pubsub := fold (add_subscription c) channels (pubsub st)\<rparr>
      in obind (subscription_reply ''subscribe'' c channels st) (finish st))"

definition command_unsubscribe :: "client_id \<Rightarrow> bytes list \<Rightarrow> store \<Rightarrow> exec_result" where
  "command_unsubscribe c channels st =
     (let st = st\<lparr>pubsub := fold (unsubscribe c) channels (pubsub st)\<rparr>
      in obind (subscription_reply ''unsubscribe'' c channels st) (finish st))"

text \<open>A subscriber that has disconnected is still listed, but has no channel.\<close>

definition command_publish :: "env \<Rightarrow> bytes \<Rightarrow> bytes \<Rightarrow> store \<Rightarrow> effect list \<times> resp" where
  "command_publish e channel message st =
     (let push = Message (Array [bulk_string ''message'', BulkString channel, BulkString message]);
          pushes = (case hm_get (subscriptions (pubsub st)) channel of
              Some cs \<Rightarrow>
                map (\<lambda>c. TrySendPush c push)
                  (filter (\<lambda>c. hm_get (clients st) c \<noteq> None) (id_order e cs))
            | None \<Rightarrow> [])
      in (pushes, Integer (word_of_nat (subscribers_count channel (pubsub st)))))"

section \<open>Sorted sets\<close>

definition command_zadd :: "bytes \<Rightarrow> f64 \<Rightarrow> bytes \<Rightarrow> store \<Rightarrow> store \<times> resp" where
  "command_zadd k score member st =
     (let (d, r) = zs_insert (sorted_sets st) k score member
      in (st\<lparr>sorted_sets := d\<rparr>, Integer (word_of_nat r)))"

definition command_zrank :: "bytes \<Rightarrow> bytes \<Rightarrow> store \<Rightarrow> resp" where
  "command_zrank k member st =
     (case zs_rank (sorted_sets st) k member of
        Some rank \<Rightarrow> Integer rank
      | None \<Rightarrow> NullBulkString)"

definition command_zrange :: "bytes \<Rightarrow> i32 \<Rightarrow> i32 \<Rightarrow> store \<Rightarrow> resp" where
  "command_zrange k start stop st = Array (map BulkString (zs_range (sorted_sets st) k start stop))"

definition command_zcard :: "bytes \<Rightarrow> store \<Rightarrow> resp" where
  "command_zcard k st = Integer (word_of_nat (zs_card (sorted_sets st) k))"

definition command_zscore :: "bytes \<Rightarrow> bytes \<Rightarrow> store \<Rightarrow> resp" where
  "command_zscore k member st =
     (case zs_score (sorted_sets st) k member of
        Some score \<Rightarrow> BulkString (f64_to_string score)
      | None \<Rightarrow> NullBulkString)"

definition command_zrem :: "bytes \<Rightarrow> bytes \<Rightarrow> store \<Rightarrow> store \<times> resp" where
  "command_zrem k member st =
     (let (d, r) = zs_rem (sorted_sets st) k member
      in (st\<lparr>sorted_sets := d\<rparr>, Integer (word_of_nat r)))"

section \<open>Geospatial commands\<close>

definition geo_out_of_range :: "f64 \<Rightarrow> f64 \<Rightarrow> bool" where
  "geo_out_of_range lon lat \<longleftrightarrow>
     f64_lt lon MIN_LONGITUDE \<or> f64_lt MAX_LONGITUDE lon
     \<or> f64_lt lat MIN_LATITUDE \<or> f64_lt MAX_LATITUDE lat"

definition command_geoadd :: "bytes \<Rightarrow> f64 \<Rightarrow> f64 \<Rightarrow> bytes \<Rightarrow> store \<Rightarrow> store \<times> resp" where
  "command_geoadd k lon lat member st =
     (if geo_out_of_range lon lat
      then (st, SimpleError (as_bytes ''ERR invalid longitude,latitude pair ''
                   @ f64_to_string lon @ as_bytes '', '' @ f64_to_string lat))
      else
        let score = f64_of_nat (unat (encode lat lon));
            (d, r) = zs_insert (sorted_sets st) k score member
        in (st\<lparr>sorted_sets := d\<rparr>, Integer (word_of_nat r)))"

definition command_geopos :: "bytes \<Rightarrow> bytes list \<Rightarrow> store \<Rightarrow> resp" where
  "command_geopos k members st =
     Array (map (\<lambda>member.
       case zs_score (sorted_sets st) k member of
         Some score \<Rightarrow>
           (let coord = decode (f64_to_u64 score)
            in Array [BulkString (f64_to_string (longitude coord)), BulkString (f64_to_string (latitude coord))])
       | None \<Rightarrow> NullArray) members)"

abbreviation env_haversine :: "env \<Rightarrow> coordinates \<Rightarrow> coordinates \<Rightarrow> f64" where
  "env_haversine e \<equiv> haversine (sin_f64 e) (cos_f64 e) (asin_f64 e)"

definition command_geodist :: "env \<Rightarrow> bytes \<Rightarrow> bytes \<Rightarrow> bytes \<Rightarrow> store \<Rightarrow> resp" where
  "command_geodist e k member1 member2 st =
     (case (zs_score (sorted_sets st) k member1, zs_score (sorted_sets st) k member2) of
        (Some score1, Some score2) \<Rightarrow>
          BulkString (f64_to_string
            (env_haversine e (decode (f64_to_u64 score1)) (decode (f64_to_u64 score2))))
      | _ \<Rightarrow> NullBulkString)"

definition command_geosearch :: "env \<Rightarrow> bytes \<Rightarrow> f64 \<Rightarrow> f64 \<Rightarrow> f64 \<Rightarrow> bytes \<Rightarrow> store \<Rightarrow> resp outcome" where
  "command_geosearch e k lon lat radius unit_name st =
     (let c1 = \<lparr>latitude = lat, longitude = lon\<rparr>
      in obind (assert (to_uppercase unit_name = as_bytes ''M'')) (\<lambda>_.
           Return (Array (map (BulkString \<circ> snd)
             (filter (\<lambda>(score, _).
                f64_le (env_haversine e c1 (decode (f64_to_u64 (score_bits score)))) radius)
                (zs_get (sorted_sets st) k))))))"

section \<open>Access control\<close>

definition command_acl_whoami :: resp where
  "command_acl_whoami = bulk_string ''default''"

definition command_acl_getuser :: "env \<Rightarrow> bytes \<Rightarrow> store \<Rightarrow> resp" where
  "command_acl_getuser e username st =
     (let passwords_resp = (case hm_get (users st) username of
            Some passwords \<Rightarrow> map BulkString (key_order e passwords)
          | None \<Rightarrow> []);
          flags_resp = (if passwords_resp = [] then [bulk_string ''nopass''] else [])
      in Array [bulk_string ''flags'', Array flags_resp, bulk_string ''passwords'', Array passwords_resp])"

text \<open>\<open>format!("{:02x}", b)\<close> of every byte of the digest.\<close>

definition hex_digit :: "u8 \<Rightarrow> u8" where
  "hex_digit d = (if d < 10 then 48 + d else 87 + d)"

definition hex_string :: "bytes \<Rightarrow> bytes" where
  "hex_string bs = concat (map (\<lambda>b. [hex_digit (drop_bit 4 b), hex_digit (b AND 0xF)]) bs)"

definition password_hash :: "env \<Rightarrow> bytes \<Rightarrow> bytes" where
  "password_hash e password = hex_string (sha256 e password)"

definition command_acl_setuser :: "env \<Rightarrow> bytes \<Rightarrow> bytes \<Rightarrow> store \<Rightarrow> store \<times> resp" where
  "command_acl_setuser e username password st =
     (let hash_string = password_hash e password
      in (st\<lparr>users := hm_modify_or username (hs_insert hash_string) [hash_string] (users st)\<rparr>,
          simple_string ''OK''))"

definition command_auth :: "env \<Rightarrow> bytes \<Rightarrow> bytes \<Rightarrow> store \<Rightarrow> resp" where
  "command_auth e username password st =
     (let refused = simple_error ''WRONGPASS invalid username-password pair or user is disabled.''
      in case hm_get (users st) username of
           Some passwords \<Rightarrow>
             if password_hash e password \<in> set passwords then simple_string ''OK'' else refused
         | None \<Rightarrow> refused)"

section \<open>The invariant\<close>

lemma sets_wf_add_subscriptions:
  "sets_wf (subscriptions p) \<Longrightarrow> sets_wf (subscriptions (fold (add_subscription c) chs p))"
  by (induction chs arbitrary: p) (simp_all add: add_subscription_def)

lemma sets_wf_unsubscribe:
  "sets_wf (subscriptions p) \<Longrightarrow> sets_wf (subscriptions (fold (unsubscribe c) chs p))"
  by (induction chs arbitrary: p) (simp_all add: unsubscribe_def)

lemma keeps_pubsub:
  assumes "store_wf st" and "sets_wf (subscriptions p)"
  shows "keeps st [] (st\<lparr>pubsub := p\<rparr>)"
  using assms by (intro keeps_same_waiters) (auto simp: same_waiters_def store_wf_def parties_wf_def)

lemma keeps_sorted_sets:
  assumes "store_wf st" and "zsets_wf d"
  shows "keeps st [] (st\<lparr>sorted_sets := d\<rparr>)"
  using assms by (intro keeps_same_waiters) (auto simp: same_waiters_def store_wf_def parties_wf_def)

lemma keeps_users:
  assumes "store_wf st" and "sets_wf u"
  shows "keeps st [] (st\<lparr>users := u\<rparr>)"
  using assms by (intro keeps_same_waiters) (auto simp: same_waiters_def store_wf_def parties_wf_def)

lemma store_wf_parties: "store_wf st \<Longrightarrow> parties_wf st"
  by (simp add: store_wf_def)

lemma good_subscribe:
  assumes "store_wf st"
  shows "good st (command_subscribe c chs st)" and "good st (command_unsubscribe c chs st)"
proof -
  have "sets_wf (subscriptions (pubsub st))"
    using assms by (simp add: store_wf_def parties_wf_def)
  with assms show "good st (command_subscribe c chs st)" and "good st (command_unsubscribe c chs st)"
    by (auto simp: command_subscribe_def command_unsubscribe_def Let_def intro!: good_obind keeps_pubsub
      sets_wf_add_subscriptions sets_wf_unsubscribe)
qed

lemma answered_pushes [simp]:
  "answered (map (\<lambda>c. TrySendPush c p) cs) = {#}" "timers_of (map (\<lambda>c. TrySendPush c p) cs) = {#}"
  by (induction cs) simp_all

lemma keeps_publish: "store_wf st \<Longrightarrow> keeps st (fst (command_publish e ch m st)) st"
  by (auto simp: command_publish_def Let_def keeps_def split: option.splits)

lemma keeps_zset_commands:
  assumes "store_wf st"
  shows "keeps st [] (fst (command_zadd k v m st))" "keeps st [] (fst (command_zrem k m st))"
    "keeps st [] (fst (command_geoadd k lon lat m st))"
proof -
  have wf: "zsets_wf (sorted_sets st)"
    using assms by (simp add: store_wf_def parties_wf_def)
  have "zsets_wf d'" if "zs_insert (sorted_sets st) k s m = (d', n)" for s d' n
    using zsets_wf_zs_insert [OF wf, of k s m] that by simp
  moreover have "zsets_wf d'" if "zs_rem (sorted_sets st) k m = (d', n)" for d' n
    using zsets_wf_zs_rem [OF wf, of k m] that by simp
  ultimately show "keeps st [] (fst (command_zadd k v m st))" "keeps st [] (fst (command_zrem k m st))"
    "keeps st [] (fst (command_geoadd k lon lat m st))"
    using assms by (auto simp: command_zadd_def command_zrem_def command_geoadd_def Let_def keeps_refl
        intro!: keeps_sorted_sets split: prod.splits)
qed

lemma keeps_acl_setuser: "store_wf st \<Longrightarrow> keeps st [] (fst (command_acl_setuser e u p st))"
  by (auto simp: command_acl_setuser_def Let_def store_wf_def parties_wf_def intro!: keeps_users)

section \<open>Subscribers\<close>

text \<open>The abstract view of publish and subscribe: a set of clients for every channel.\<close>

definition subscribers :: "pub_sub \<Rightarrow> bytes \<Rightarrow> client_id set" where
  "subscribers p channel = (case hm_get (subscriptions p) channel of Some cs \<Rightarrow> set cs | None \<Rightarrow> {})"

lemma subscribers_add:
  "subscribers (fold (add_subscription c) chs p) ch = subscribers p ch \<union> (if ch \<in> set chs then {c} else {})"
  by (induction chs arbitrary: p) (auto simp: subscribers_def add_subscription_def map_simps split: option.splits)

lemma subscribers_remove:
  "subscribers (fold (unsubscribe c) chs p) ch = subscribers p ch - (if ch \<in> set chs then {c} else {})"
  by (induction chs arbitrary: p) (auto simp: subscribers_def unsubscribe_def map_simps split: option.splits)

lemma get_client_subscriptions_card:
  assumes "sets_wf (subscriptions p)"
  shows "get_client_subscriptions c p = card {ch. c \<in> subscribers p ch}"
proof -
  let ?own = "filter (\<lambda>(_, clients). c \<in> set clients) (subscriptions p)"
  have wf: "hm_wf (subscriptions p)"
    using assms by (simp add: sets_wf_def)
  have "c \<in> subscribers p ch \<longleftrightarrow> (\<exists>cs. (ch, cs) \<in> set (subscriptions p) \<and> c \<in> set cs)" for ch
    unfolding hm_get_iff_mem [OF wf, symmetric] by (auto simp: subscribers_def split: option.splits)
  then have "{ch. c \<in> subscribers p ch} = set (map fst ?own)"
    by (auto simp: image_iff) (metis fst_conv)?
  moreover have "distinct (map fst ?own)"
    using wf by (simp add: hm_wf_def distinct_map_filter)
  ultimately show ?thesis
    using distinct_card [of "map fst ?own"] by (simp add: get_client_subscriptions_def)
qed

text \<open>
  \<open>SUBSCRIBE\<close> and \<open>UNSUBSCRIBE\<close> add the client to, and take it from, exactly the channels
  named, and reply with the number of different channels it is then subscribed to (counted
  once however often it subscribed); nobody else's subscriptions change.
\<close>

theorem subscribe_counts_channels:
  assumes "store_wf st" and "chs \<noteq> []"
  shows "(\<exists>st'. command_subscribe c chs st = finish st' (Array [bulk_string ''subscribe'', BulkString (hd chs),
        Integer (word_of_nat (card {ch. c \<in> subscribers (pubsub st') ch}))])
      \<and> (\<forall>ch. subscribers (pubsub st') ch = subscribers (pubsub st) ch \<union> (if ch \<in> set chs then {c} else {})))
    \<and> (\<exists>st'. command_unsubscribe c chs st = finish st' (Array [bulk_string ''unsubscribe'', BulkString (hd chs),
        Integer (word_of_nat (card {ch. c \<in> subscribers (pubsub st') ch}))])
      \<and> (\<forall>ch. subscribers (pubsub st') ch = subscribers (pubsub st) ch - (if ch \<in> set chs then {c} else {})))"
proof -
  have wf: "sets_wf (subscriptions (pubsub st))"
    using assms(1) by (simp add: store_wf_def parties_wf_def)
  have first: "index chs 0 = Return (hd chs)"
    using assms(2) by (simp add: index_def hd_conv_nth)
  show ?thesis
    by (simp add: command_subscribe_def command_unsubscribe_def subscription_reply_def first subscribers_add
        subscribers_remove get_client_subscriptions_card [OF sets_wf_add_subscriptions [OF wf]]
        get_client_subscriptions_card [OF sets_wf_unsubscribe [OF wf]])
qed

theorem subscribe_counts_channels_witness:
  "\<exists>st' n. command_subscribe 4 [[1], [2], [1]] (fresh_store False plain_config []) =
     finish st' (Array [bulk_string ''subscribe'', BulkString [1], Integer n]) \<and> 4 \<in> subscribers (pubsub st') [2]"
  using subscribe_counts_channels [of "fresh_store False plain_config []" "[[1], [2], [1]]" 4]
  by auto

text \<open>
  C29. \<open>PUBLISH\<close> pushes the message exactly once to every subscriber of the channel that is
  connected, and to nobody else, in whatever order the set is walked; the reply is the number
  of all subscribers, also of those that have disconnected since.
\<close>

theorem publish_reaches_subscribers:
  assumes "store_wf st" and "env_ok e"
    and "push = Message (Array [bulk_string ''message'', BulkString ch, BulkString m])"
  shows "(\<exists>cs. fst (command_publish e ch m st) = map (\<lambda>c. TrySendPush c push) cs \<and> distinct cs
      \<and> set cs = {c \<in> subscribers (pubsub st) ch. hm_get (clients st) c \<noteq> None})
    \<and> snd (command_publish e ch m st) = Integer (word_of_nat (card (subscribers (pubsub st) ch)))"
proof (cases "hm_get (subscriptions (pubsub st)) ch")
  case None
  then show ?thesis
    by (simp add: command_publish_def subscribers_def subscribers_count_def)
next
  case (Some cs)
  then have "distinct cs"
    using assms(1) by (auto simp: store_wf_def parties_wf_def sets_wf_def list_all_iff dest!: hm_get_mem)
  moreover from this have "distinct (id_order e cs)" "set (id_order e cs) = set cs"
    using assms(2) by (simp_all add: env_ok_def iteration_order_distinct iteration_order_set)
  moreover have "subscribers (pubsub st) ch = set cs" "subscribers_count ch (pubsub st) = length cs"
    using Some by (simp_all add: subscribers_def subscribers_count_def)
  moreover have "fst (command_publish e ch m st) =
      map (\<lambda>c. TrySendPush c push) (filter (\<lambda>c. hm_get (clients st) c \<noteq> None) (id_order e cs))"
    using Some by (simp add: command_publish_def Let_def assms(3))
  ultimately show ?thesis
    by (intro conjI exI [of _ "filter (\<lambda>c. hm_get (clients st) c \<noteq> None) (id_order e cs)"])
      (auto simp: command_publish_def Let_def distinct_card)
qed

text \<open>Two clients subscribe to a channel; one of them has disconnected since.\<close>

definition chat_store :: store where
  "chat_store = (fresh_store False plain_config [])\<lparr>clients := [(4, False)], pubsub := \<lparr>subscriptions = [([1], [4, 5])]\<rparr>\<rparr>"

lemma chat_store_wf: "store_wf chat_store"
  by (simp add: chat_store_def fresh_store_def store_wf_def data_wf_def hm_wf_def watched_wf_def sets_wf_def
      waiters_wf_def waiter_ids_def parties_wf_def zsets_wf_def)

theorem publish_reaches_subscribers_witness:
  "snd (command_publish plain_env [1] [2] chat_store) = Integer 2"
proof -
  have "subscribers (pubsub chat_store) [1] = {4, 5}"
    by (simp add: chat_store_def subscribers_def hm_get_def)
  then show ?thesis
    using publish_reaches_subscribers [OF chat_store_wf plain_env_ok refl, of "[1]" "[2]"] by simp
qed

section \<open>Passwords\<close>

lemma unat_hex_digit: "unat d < 16 \<Longrightarrow> unat (hex_digit d) = (if unat d < 10 then 48 + unat d else 87 + unat d)"
  by (auto simp: hex_digit_def word_less_nat_alt unat_word_ariths)

lemma hex_digit_inject: "unat x < 16 \<Longrightarrow> unat y < 16 \<Longrightarrow> hex_digit x = hex_digit y \<longleftrightarrow> x = y"
  using unat_hex_digit [of x] unat_hex_digit [of y] by (auto simp: word_unat_eq_iff split: if_splits)

lemma nibbles: "unat (drop_bit 4 (b :: u8)) < 16" "unat (b AND 0xF :: u8) < 16"
proof -
  have "unat b < 256"
    using unsigned_less [of b, where ?'a = nat] by simp
  then show "unat (drop_bit 4 b) < 16"
    by (simp add: drop_bit_eq_div unat_div)
  have "b AND 0xF = take_bit 4 b"
    by (simp add: take_bit_eq_mask mask_eq_exp_minus_1)
  then show "unat (b AND 0xF) < 16"
    by (simp add: take_bit_eq_mod unat_mod)
qed

lemma nibbles_inject: "drop_bit 4 b = drop_bit 4 c \<Longrightarrow> b AND 0xF = c AND 0xF \<Longrightarrow> b = (c :: u8)"
proof -
  assume "drop_bit 4 b = drop_bit 4 c" and "b AND 0xF = c AND 0xF"
  then have "push_bit 4 (drop_bit 4 b) + take_bit 4 b = push_bit 4 (drop_bit 4 c) + take_bit 4 c"
    by (simp add: take_bit_eq_mask mask_eq_exp_minus_1)
  then show "b = c"
    by (simp only: bits_ident)
qed

lemma hex_string_inject: "hex_string a = hex_string b \<longleftrightarrow> a = b"
proof (induction a arbitrary: b)
  case Nil
  then show ?case
    by (cases b) (simp_all add: hex_string_def)
next
  case (Cons x a)
  then show ?case
    by (cases b) (auto simp: hex_string_def hex_digit_inject nibbles intro: nibbles_inject)
qed

text \<open>
  C20. Passwords: after \<open>ACL SETUSER\<close> of a user, \<open>AUTH\<close> of that user accepts exactly the
  passwords it accepted before and those with the digest of the new one (the hexadecimal form
  in which digests are kept confuses no two of them); what other users may log in with does
  not change.
\<close>

theorem auth_after_setuser:
  "command_auth e u q (fst (command_acl_setuser e u' p st)) = simple_string ''OK'' \<longleftrightarrow>
     (u = u' \<and> sha256 e q = sha256 e p) \<or> command_auth e u q st = simple_string ''OK''"
  by (auto simp: command_auth_def command_acl_setuser_def password_hash_def hex_string_inject map_simps Let_def
      simple_string_def simple_error_def split: option.splits)

end
