(* ===== verification/TryExecute.thy ===== *)
theory TryExecute
  imports StoreKeys StoreLists StoreStreams StoreTx StoreRepl StoreMisc
begin

text \<open>
  \<open>Store::try_execute\<close>: one command on the store. The arms of its \<open>match\<close> call the
  operations of the component theories; \<open>InternalExecuteTx\<close> runs the commands of a
  transaction with \<open>try_execute\<close> itself. A command of a transaction that would block, or
  that gives no reply, counts as a null array.
\<close>

text \<open>A command that changes the store and replies.\<close>

abbreviation replies :: "store \<times> resp \<Rightarrow> exec_result" where
  "replies x \<equiv> (case x of (st, r) \<Rightarrow> finish st r)"

abbreviation results :: "store \<times> try_execute_result \<Rightarrow> exec_result" where
  "results x \<equiv> (case x of (st, r) \<Rightarrow> Return (st, [], r))"

abbreviation reads :: "store \<Rightarrow> resp outcome \<Rightarrow> exec_result" where
  "reads st x \<equiv> obind x (finish st)"

text \<open>The arms for the commands that contain no other command.\<close>

definition execute_simple :: "env \<Rightarrow> client_id \<Rightarrow> command \<Rightarrow> store \<Rightarrow> exec_result" where
  "execute_simple e c cmd st =
     (case cmd of
        Set k v ex px \<Rightarrow> replies (command_set e k v ex px st)
      | Get k \<Rightarrow> finish st (command_get e k st)
      | Watch ks \<Rightarrow> replies (command_watch c ks st)
      | Unwatch \<Rightarrow> replies (command_unwatch c st)
      | Discard \<Rightarrow> replies (command_discard c st)
      | Incr k \<Rightarrow> replies (command_incr k st)
      | Xadd k i fvs \<Rightarrow> command_xadd e k i fvs st
      | Xread ks ms ids \<Rightarrow> command_xread ks ms ids st
      | Xrange k start stop \<Rightarrow> reads st (command_xrange k start stop st)
      | Type k \<Rightarrow> finish st (command_type k st)
      | Rpush k xs \<Rightarrow> command_rpush e k xs st
      | Lpush k xs \<Rightarrow> command_lpush e k xs st
      | Lpop k cnt \<Rightarrow> replies (command_lpop k cnt st)
      | Lrange k start stop \<Rightarrow> reads st (command_lrange k start stop st)
      | Llen k \<Rightarrow> finish st (command_llen k st)
      | Blpop ks _ \<Rightarrow> results (command_blpop ks st)
      | Info _ \<Rightarrow> finish st (command_info st)
      | Ping message \<Rightarrow> finish st (command_ping message)
      | Wait n timeout \<Rightarrow> results (command_wait n timeout st)
      | ConfigGet p \<Rightarrow> finish st (command_config_get p st)
      | Keys _ \<Rightarrow> finish st (command_keys e st)
      | Subscribe chs \<Rightarrow> command_subscribe c chs st
      | ReplconfAck n \<Rightarrow> command_replconf_ack e c n st
      | Publish ch m \<Rightarrow>
          (case command_publish e ch m st of (out, r) \<Rightarrow> Return (st, out, Done r))
      | Unsubscribe chs \<Rightarrow> command_unsubscribe c chs st
      | Zadd k s m \<Rightarrow> replies (command_zadd k s m st)
      | Zrank k m \<Rightarrow> finish st (command_zrank k m st)
      | Zrange k start stop \<Rightarrow> finish st (command_zrange k start stop st)
      | Zcard k \<Rightarrow> finish st (command_zcard k st)
      | Zscore k m \<Rightarrow> finish st (command_zscore k m st)
      | Zrem k m \<Rightarrow> replies (command_zrem k m st)
      | Geoadd k lon lat m \<Rightarrow> replies (command_geoadd k lon lat m st)
      | Geopos k ms \<Rightarrow> finish st (command_geopos k ms st)
      | Geodist k m1 m2 \<Rightarrow> finish st (command_geodist e k m1 m2 st)
      | Geosearch k lon lat radius u \<Rightarrow> reads st (command_geosearch e k lon lat radius u st)
      | AclWhoami \<Rightarrow> finish st command_acl_whoami
      | AclGetuser u \<Rightarrow> finish st (command_acl_getuser e u st)
      | AclSetuser u p \<Rightarrow> replies (command_acl_setuser e u p st)
      | Auth u p \<Rightarrow> finish st (command_auth e u p st)
      | _ \<Rightarrow> finish st NullBulkString)"

text \<open>The reply a transaction records for one of its commands.\<close>

definition tx_reply :: "try_execute_result \<Rightarrow> resp" where
  "tx_reply r = (case r of Done x \<Rightarrow> x | _ \<Rightarrow> NullArray)"

primrec exec_all ::
    "(command \<Rightarrow> store \<Rightarrow> exec_result) \<Rightarrow> command list \<Rightarrow> store \<Rightarrow> (store \<times> effect list \<times> resp list) outcome" where
  "exec_all f [] st = Return (st, [], [])"
| "exec_all f (cmd # cmds) st =
     obind (f cmd st) (\<lambda>(st, out, r).
     obind (exec_all f cmds st) (\<lambda>(st, out', rs). Return (st, out @ out', tx_reply r # rs)))"

lemma exec_all_cong [fundef_cong]:
  assumes "cs = ds" and "st = st'" and "\<And>c s. c \<in> set ds \<Longrightarrow> f c s = g c s"
  shows "exec_all f cs st = exec_all g ds st'"
proof -
  have "exec_all f ds s = exec_all g ds s" for s
    using assms(3)
  proof (induction ds arbitrary: s)
    case (Cons d ds)
    then have "f d s = g d s" and "exec_all f ds = exec_all g ds"
      by (auto intro!: ext)
    then show ?case
      by simp
  qed simp
  with assms(1,2) show ?thesis
    by simp
qed

function try_execute :: "env \<Rightarrow> client_id \<Rightarrow> command \<Rightarrow> store \<Rightarrow> exec_result" where
  "try_execute e c cmd st =
     (let st = mark_modified c (modified_keys cmd) st
      in case cmd of
           InternalExecuteTx cmds \<Rightarrow>
             if lock_failed c st then finish (cleanup_watches c st) NullArray
             else obind (exec_all (\<lambda>cmd. try_execute e c cmd) cmds st) (\<lambda>(st, out, rs).
                    Return (cleanup_watches c st, out, Done (Array rs)))
         | _ \<Rightarrow> execute_simple e c cmd st)"
  by pat_completeness auto

termination
proof (relation "measure (\<lambda>(e, c, cmd, st). size cmd)")
  fix cmds x and cmd :: command
  assume "cmd = InternalExecuteTx cmds" and "x \<in> set cmds"
  then show "((e, c, x, s), e, c, cmd, st) \<in> measure (\<lambda>(e, c, cmd, st). size cmd)" for e c s st
    using size_list_estimation' [of x cmds "size x" size] by simp
qed simp

declare try_execute.simps [simp del]

lemma replies_Return [simp]: "replies x = Return (st', out, r) \<longleftrightarrow> st' = fst x \<and> out = [] \<and> r = Done (snd x)"
  by (cases x) auto

lemma results_Return [simp]: "results x = Return (st', out, r) \<longleftrightarrow> x = (st', r) \<and> out = []"
  by (cases x) auto

section \<open>The invariant\<close>

definition is_tx :: "command \<Rightarrow> bool" where
  "is_tx cmd = (case cmd of InternalExecuteTx _ \<Rightarrow> True | _ \<Rightarrow> False)"

text \<open>What reaches the store: a decoded command, or a transaction of decoded commands.\<close>

definition executable :: "command \<Rightarrow> bool" where
  "executable cmd = (case cmd of InternalExecuteTx cmds \<Rightarrow> list_all decoded_ok cmds | _ \<Rightarrow> decoded_ok cmd)"

lemma decoded_not_tx: "decoded_ok cmd \<Longrightarrow> \<not> is_tx cmd"
  by (cases cmd) (simp_all add: decoded_ok_def is_tx_def)

lemma decoded_executable: "decoded_ok cmd \<Longrightarrow> executable cmd"
  by (cases cmd) (simp_all add: decoded_ok_def executable_def)

lemma try_execute_simple:
  "\<not> is_tx cmd \<Longrightarrow> try_execute e c cmd st = execute_simple e c cmd (mark_modified c (modified_keys cmd) st)"
  by (subst try_execute.simps) (cases cmd; simp add: is_tx_def Let_def)

lemma mark_modified_Nil [simp]: "mark_modified c [] st = st"
  by (simp add: mark_modified_def)

lemma try_execute_tx:
  "try_execute e c (InternalExecuteTx cmds) st =
     (if lock_failed c st then finish (cleanup_watches c st) NullArray
      else obind (exec_all (try_execute e c) cmds st) (\<lambda>(st, out, rs).
             Return (cleanup_watches c st, out, Done (Array rs))))"
  by (subst try_execute.simps) (simp add: modified_keys_def)

text \<open>The shapes of the arms.\<close>

lemma good_replies: "keeps st [] (fst x) \<Longrightarrow> good st (replies x)"
  by (cases x) simp

lemma good_results:
  "(\<And>st' r. x = (st', r) \<Longrightarrow> keeps st [] st' \<and> result_ok st' r) \<Longrightarrow> good st (results x)"
  by (cases x) simp

lemma good_reads: "store_wf st \<Longrightarrow> good st (reads st x)"
  by (cases x) (simp_all add: keeps_refl)

lemma good_published:
  "(\<And>out r. x = (out, r) \<Longrightarrow> keeps st out st) \<Longrightarrow> good st (case x of (out, r) \<Rightarrow> Return (st, out, Done r))"
  by (cases x) simp

lemmas good_shapes = good_replies good_results good_reads good_published

lemma good_execute_simple:
  assumes "store_wf st" and "decoded_ok cmd"
  shows "good st (execute_simple e c cmd st)"
proof -
  have published: "command_publish e ch m st = (out, r) \<Longrightarrow> keeps st out st" for ch m out r
    using keeps_publish [OF assms(1), of e ch m] by simp
  note arms = keeps_command_set keeps_command_incr keeps_tx keeps_zset_commands keeps_acl_setuser
    keeps_command_lpop good_blpop good_wait published good_pushes good_xadd good_xread good_subscribe
    good_replconf_ack assms(1)
  show ?thesis
    using assms(2)
    by (cases cmd; simp only: execute_simple_def command.case good_finish assms(1))
      (rule good_shapes good_xread; (rule arms; (rule assms(1) | assumption)?) | simp add: arms decoded_ok_def)+
qed

lemma good_after: "keeps st [] st' \<Longrightarrow> good st' x \<Longrightarrow> good st x"
  using keeps_trans [of st "[]" st'] by (cases x) (auto simp: good_def)

lemma good_decoded:
  assumes "store_wf st" and "decoded_ok cmd"
  shows "good st (try_execute e c cmd st)"
proof -
  let ?st = "mark_modified c (modified_keys cmd) st"
  have "keeps st [] ?st"
    using assms(1) by (rule keeps_tx)
  moreover from this have "good ?st (execute_simple e c cmd ?st)"
    using assms(2) by (intro good_execute_simple) (simp_all add: keeps_def)
  ultimately show ?thesis
    using decoded_not_tx [OF assms(2)] by (simp add: try_execute_simple good_after)
qed

lemma keeps_exec_all:
  assumes "\<And>cmd st. cmd \<in> set cmds \<Longrightarrow> store_wf st \<Longrightarrow> good st (f cmd st)"
    and "store_wf st" and "exec_all f cmds st = Return (st', out, rs)"
  shows "keeps st out st'"
  using assms
proof (induction cmds arbitrary: st st' out rs)
  case (Cons cmd cmds)
  then obtain st1 out1 r out2 rs2 where step: "f cmd st = Return (st1, out1, r)"
    "exec_all f cmds st1 = Return (st', out2, rs2)" "out = out1 @ out2"
    by auto
  then have "keeps st out1 st1"
    using Cons.prems(1) [of cmd st] Cons.prems(2) by simp
  moreover from this have "keeps st1 out2 st'"
    using step(2) Cons.IH [of st1] Cons.prems(1) by (simp add: keeps_def)
  ultimately show ?case
    unfolding step(3) by (rule keeps_trans)
qed (simp add: keeps_refl)

lemma good_try_execute:
  assumes "store_wf st" and "executable cmd"
  shows "good st (try_execute e c cmd st)"
proof (cases "is_tx cmd")
  case False
  then have "decoded_ok cmd"
    using assms(2) by (cases cmd) (simp_all add: is_tx_def executable_def)
  with assms(1) show ?thesis
    by (rule good_decoded)
next
  case True
  then obtain cmds where cmd: "cmd = InternalExecuteTx cmds" "list_all decoded_ok cmds"
    using assms(2) by (cases cmd) (auto simp: is_tx_def executable_def)
  have "good st (obind (exec_all (try_execute e c) cmds st) (\<lambda>(st, out, rs).
      Return (cleanup_watches c st, out, Done (Array rs))))"
  proof (rule good_obind)
    fix x
    assume "exec_all (try_execute e c) cmds st = Return x"
    then obtain st1 out rs where x: "x = (st1, out, rs)"
      and ran: "exec_all (try_execute e c) cmds st = Return (st1, out, rs)"
      by (cases x) auto
    have "keeps st out st1"
      using good_decoded cmd(2) by (intro keeps_exec_all [OF _ assms(1) ran]) (auto simp: list_all_iff)
    moreover from this have "keeps st1 [] (cleanup_watches c st1)"
      by (intro keeps_tx) (simp add: keeps_def)
    ultimately show "good st (case x of (st, out, rs) \<Rightarrow> Return (cleanup_watches c st, out, Done (Array rs)))"
      using keeps_trans by (fastforce simp: x)
  qed
  then show ?thesis
    using assms(1) by (simp add: cmd try_execute_tx keeps_tx)
qed

end
