(* ===== verification/Aof.thy ===== *)
theory Aof
  imports StoreState
begin

text \<open>
  \<open>aof.rs\<close>: the append-only file. The file system is a map from paths to contents and a set
  of directories; \<open>permitted\<close> says which paths the operating system lets the program create
  (a refusal is a panic in every place where the source creates something).
\<close>

record file_system =
  files :: "(bytes, bytes) hashmap"
  directories :: "bytes hashset"

text \<open>\<open>aof_file\<close> is the path of the file that is open for appending, if there is one.\<close>

record aof =
  aof_dir :: bytes
  aof_appendonly :: bytes
  aof_appenddirname :: bytes
  aof_appendfilename :: bytes
  aof_appendfsync :: bytes
  aof_file :: "bytes option"

section \<open>Setting up\<close>

definition create_dir :: "(bytes \<Rightarrow> bool) \<Rightarrow> bytes \<Rightarrow> file_system \<Rightarrow> file_system outcome" where
  "create_dir permitted dirname fs =
     (if dirname \<in> set (directories fs) then Return fs
      else if permitted dirname then Return (fs\<lparr>directories := hs_insert dirname (directories fs)\<rparr>)
      else Panic UnwrapPanic)"

text \<open>Create a file with some contents unless there is one.\<close>

definition create_file :: "(bytes \<Rightarrow> bool) \<Rightarrow> bytes \<Rightarrow> bytes \<Rightarrow> file_system \<Rightarrow> file_system outcome" where
  "create_file permitted path content fs =
     (if hm_get (files fs) path \<noteq> None then Return fs
      else if permitted path then Return (fs\<lparr>files := hm_insert path content (files fs)\<rparr>)
      else Panic UnwrapPanic)"

definition create_aof_file :: "(bytes \<Rightarrow> bool) \<Rightarrow> bytes \<Rightarrow> file_system \<Rightarrow> file_system outcome" where
  "create_aof_file permitted path fs = create_file permitted path [] fs"

definition manifest_line :: "bytes \<Rightarrow> bytes" where
  "manifest_line base = as_bytes ''file '' @ base @ as_bytes '' seq 1 type i''"

definition create_manifest_file :: "(bytes \<Rightarrow> bool) \<Rightarrow> bytes \<Rightarrow> bytes \<Rightarrow> file_system \<Rightarrow> file_system outcome" where
  "create_manifest_file permitted path base fs = create_file permitted path (manifest_line base) fs"

text \<open>\<open>str::split\<close> at a byte, and \<open>str::lines\<close>.\<close>

fun split_at :: "u8 \<Rightarrow> bytes \<Rightarrow> bytes list" where
  "split_at c [] = [[]]"
| "split_at c (b # s) =
     (if b = c then [] # split_at c s
      else (case split_at c s of p # ps \<Rightarrow> (b # p) # ps | [] \<Rightarrow> [[b]]))"

definition strip_cr :: "bytes \<Rightarrow> bytes" where
  "strip_cr s = (if s \<noteq> [] \<and> last s = 13 then butlast s else s)"

definition lines_of :: "bytes \<Rightarrow> bytes list" where
  "lines_of s =
     (let ls = split_at 10 s;
          terminated = map strip_cr (butlast ls)
      in if last ls = [] then terminated else terminated @ [last ls])"

text \<open>The name in a line of the manifest whose sixth word is \<open>i\<close>.\<close>

definition manifest_entry :: "bytes \<Rightarrow> bytes option" where
  "manifest_entry l =
     (let parts = split_at 32 l
      in if 5 < length parts \<and> parts ! 5 = as_bytes ''i'' then Some (parts ! 1) else None)"

primrec first_entry :: "bytes list \<Rightarrow> bytes option" where
  "first_entry [] = None"
| "first_entry (l # ls) = (case manifest_entry l of Some f \<Rightarrow> Some f | None \<Rightarrow> first_entry ls)"

definition get_aof_filename :: "bytes \<Rightarrow> file_system \<Rightarrow> bytes option outcome" where
  "get_aof_filename path fs =
     obind (unwrap (hm_get (files fs) path)) (\<lambda>content.
     obind (unwrap (from_utf8 content)) (\<lambda>buffer.
       Return (first_entry (lines_of buffer))))"

definition aof_path :: "bytes \<Rightarrow> bytes \<Rightarrow> bytes \<Rightarrow> bytes" where
  "aof_path d dirname f = d @ as_bytes ''/'' @ dirname @ as_bytes ''/'' @ f"

definition from_config :: "(bytes \<Rightarrow> bool) \<Rightarrow> config \<Rightarrow> file_system \<Rightarrow> (file_system \<times> aof) outcome" where
  "from_config permitted cfg fs =
     obind
       (if appendonly cfg = as_bytes ''yes'' then
          let dirname = dir cfg @ as_bytes ''/'' @ appenddirname cfg @ as_bytes ''/'' in
          obind (create_dir permitted dirname fs) (\<lambda>fs.
          let base_filename = appendfilename cfg @ as_bytes ''.1.incr.aof'' in
          obind (create_aof_file permitted (dirname @ base_filename) fs) (\<lambda>fs.
          let mf_filename = dirname @ appendfilename cfg @ as_bytes ''.manifest'' in
          obind (create_manifest_file permitted mf_filename base_filename fs) (\<lambda>fs.
          obind (get_aof_filename mf_filename fs) (\<lambda>found.
          obind (unwrap found) (\<lambda>aof_filename.
          let absolute = aof_path (dir cfg) (appenddirname cfg) aof_filename in
          obind (create_file permitted absolute [] fs) (\<lambda>fs.
            Return (fs, aof_filename, Some absolute)))))))
        else Return (fs, appendfilename cfg, None)) (\<lambda>(fs, aof_filename, handle).
     Return (fs, \<lparr>aof_dir = dir cfg, aof_appendonly = appendonly cfg,
                  aof_appenddirname = appenddirname cfg, aof_appendfilename = aof_filename,
                  aof_appendfsync = appendfsync cfg, aof_file = handle\<rparr>))"

section \<open>Writing and reading\<close>

definition file_content :: "bytes \<Rightarrow> file_system \<Rightarrow> bytes" where
  "file_content path fs = (case hm_get (files fs) path of Some b \<Rightarrow> b | None \<Rightarrow> [])"

definition aof_append :: "aof \<Rightarrow> resp \<Rightarrow> file_system \<Rightarrow> file_system" where
  "aof_append a r fs =
     (case aof_file a of
        Some path \<Rightarrow> fs\<lparr>files := hm_insert path (file_content path fs @ encode_resp r) (files fs)\<rparr>
      | None \<Rightarrow> fs)"

text \<open>\<open>parse_resp(..).unwrap()\<close>. The parser always ends (\<open>parse_resp_ends\<close>).\<close>

definition parsed_resps :: "bytes \<Rightarrow> resp list outcome" where
  "parsed_resps b =
     (case parse_resp b of
        POk rs _ \<Rightarrow> Return rs
      | PErr _ \<Rightarrow> Panic UnwrapPanic
      | PPanic p \<Rightarrow> Panic p
      | PLoop \<Rightarrow> Panic ExplicitPanic)"

definition decode_commands :: "resp list \<Rightarrow> command list outcome" where
  "decode_commands = omap (\<lambda>r. obind (from_resp r) unwrap)"

definition get_initial_commands :: "aof \<Rightarrow> file_system \<Rightarrow> command list outcome" where
  "get_initial_commands a fs =
     (if aof_appendonly a = as_bytes ''yes'' then
        obind (unwrap (hm_get (files fs) (aof_path (aof_dir a) (aof_appenddirname a) (aof_appendfilename a)))) (\<lambda>b.
        obind (parsed_resps b) decode_commands)
      else Return [])"

section \<open>The manifest\<close>

lemma split_at_none: "c \<notin> set s \<Longrightarrow> split_at c s = [s]"
  by (induction s) auto

lemma split_at_first: "c \<notin> set s \<Longrightarrow> split_at c (s @ c # t) = s # split_at c t"
  by (induction s) auto

text \<open>A file name of printable ASCII without blanks, as in the default configuration.\<close>

definition plain_name :: "bytes \<Rightarrow> bool" where
  "plain_name f = list_all (\<lambda>b. 32 < b \<and> b < 127) f"

lemma manifest_entry_line:
  assumes "plain_name f"
  shows "manifest_entry (manifest_line f) = Some f"
proof -
  have "32 \<notin> set f"
    using assms by (auto simp: plain_name_def list_all_iff)
  then have "split_at 32 (manifest_line f) =
      [as_bytes ''file'', f, as_bytes ''seq'', as_bytes ''1'', as_bytes ''type'', as_bytes ''i'']"
    using split_at_first [of 32 f "as_bytes ''seq 1 type i''"] by (simp add: manifest_line_def byte_simps)
  then show ?thesis
    by (simp add: manifest_entry_def Let_def)
qed

lemma manifest_read_back:
  assumes "plain_name f"
  shows "from_utf8 (manifest_line f) = Some (manifest_line f)" and "first_entry (lines_of (manifest_line f)) = Some f"
proof -
  have ascii: "list_all (\<lambda>b. b < 128) (manifest_line f)"
    using assms by (auto simp: manifest_line_def plain_name_def list_all_iff byte_simps intro: less_trans)
  then show "from_utf8 (manifest_line f) = Some (manifest_line f)"
    by (simp add: from_utf8_def utf8_valid_ascii)
  have "10 \<notin> set (manifest_line f)"
    using assms by (auto simp: manifest_line_def plain_name_def list_all_iff byte_simps)
  moreover have "manifest_line f \<noteq> []"
    by (simp add: manifest_line_def byte_simps)
  ultimately have "lines_of (manifest_line f) = [manifest_line f]"
    by (simp add: lines_of_def split_at_none Let_def)
  then show "first_entry (lines_of (manifest_line f)) = Some f"
    by (simp add: manifest_entry_line [OF assms])
qed

section \<open>Start and restart\<close>

definition base_name :: "config \<Rightarrow> bytes" where
  "base_name cfg = appendfilename cfg @ as_bytes ''.1.incr.aof''"

definition data_path :: "config \<Rightarrow> bytes" where
  "data_path cfg = aof_path (dir cfg) (appenddirname cfg) (base_name cfg)"

definition manifest_path :: "config \<Rightarrow> bytes" where
  "manifest_path cfg = aof_path (dir cfg) (appenddirname cfg) (appendfilename cfg @ as_bytes ''.manifest'')"

definition opened :: "config \<Rightarrow> aof" where
  "opened cfg = \<lparr>aof_dir = dir cfg, aof_appendonly = appendonly cfg, aof_appenddirname = appenddirname cfg,
     aof_appendfilename = base_name cfg, aof_appendfsync = appendfsync cfg, aof_file = Some (data_path cfg)\<rparr>"

lemma paths_differ: "manifest_path cfg \<noteq> data_path cfg"
  by (simp add: manifest_path_def data_path_def base_name_def aof_path_def byte_simps)

lemma plain_base_name: "plain_name (appendfilename cfg) \<Longrightarrow> plain_name (base_name cfg)"
  by (simp add: plain_name_def base_name_def byte_simps)

text \<open>Nothing is written over: no manifest yet, or the one an earlier start has written.\<close>

definition manifest_intact :: "config \<Rightarrow> file_system \<Rightarrow> bool" where
  "manifest_intact cfg fs \<longleftrightarrow>
     hm_get (files fs) (manifest_path cfg) \<in> {None, Some (manifest_line (base_name cfg))}"

lemma create_file_get:
  "create_file (\<lambda>_. True) path content fs = Return fs' \<Longrightarrow>
     hm_get (files fs') p = (if p = path \<and> hm_get (files fs) path = None then Some content else hm_get (files fs) p)"
  by (auto simp: create_file_def map_simps split: if_splits)

lemma create_file_returns: "\<exists>fs'. create_file (\<lambda>_. True) path content fs = Return fs'"
  by (simp add: create_file_def)

lemma from_config_opens:
  assumes "appendonly cfg = as_bytes ''yes''" and "plain_name (appendfilename cfg)" and "manifest_intact cfg fs"
  shows "\<exists>fs'. from_config (\<lambda>_. True) cfg fs = Return (fs', opened cfg) \<and> manifest_intact cfg fs'
    \<and> hm_get (files fs') (data_path cfg) = Some (file_content (data_path cfg) fs)"
proof -
  define d where "d = dir cfg @ as_bytes ''/'' @ appenddirname cfg @ as_bytes ''/''"
  have paths: "dir cfg @ as_bytes ''/'' @ appenddirname cfg @ as_bytes ''/'' = d"
    "d @ base_name cfg = data_path cfg" "d @ appendfilename cfg @ as_bytes ''.manifest'' = manifest_path cfg"
    by (simp_all add: d_def data_path_def manifest_path_def aof_path_def)
  obtain fs1 where fs1: "create_dir (\<lambda>_. True) d fs = Return fs1" "files fs1 = files fs"
    by (cases "d \<in> set (directories fs)") (simp_all add: create_dir_def)
  obtain fs2 where fs2: "create_aof_file (\<lambda>_. True) (data_path cfg) fs1 = Return fs2"
    unfolding create_aof_file_def using create_file_returns by blast
  obtain fs3 where fs3: "create_manifest_file (\<lambda>_. True) (manifest_path cfg) (base_name cfg) fs2 = Return fs3"
    unfolding create_manifest_file_def using create_file_returns by blast
  note get2 = create_file_get [OF fs2 [unfolded create_aof_file_def], unfolded fs1(2)]
    and get3 = create_file_get [OF fs3 [unfolded create_manifest_file_def]]
  have mf: "hm_get (files fs3) (manifest_path cfg) = Some (manifest_line (base_name cfg))"
    using assms(3) paths_differ [of cfg] by (auto simp: get2 get3 manifest_intact_def)
  have data: "hm_get (files fs3) (data_path cfg) = Some (file_content (data_path cfg) fs)"
    using paths_differ [of cfg] by (auto simp: get2 get3 file_content_def split: option.splits)
  have "get_aof_filename (manifest_path cfg) fs3 = Return (Some (base_name cfg))"
    using mf manifest_read_back [OF plain_base_name [OF assms(2)]] by (simp add: get_aof_filename_def)
  moreover have "create_file (\<lambda>_. True) (data_path cfg) [] fs3 = Return fs3"
    using data by (simp add: create_file_def)
  ultimately have "from_config (\<lambda>_. True) cfg fs = Return (fs3, opened cfg)"
    using assms(1) fs1(1) fs2 fs3
    unfolding from_config_def Let_def base_name_def [symmetric]
    by (simp add: paths opened_def data_path_def [symmetric])
  with mf data show ?thesis
    by (auto simp: manifest_intact_def)
qed

section \<open>Log and replay\<close>

text \<open>The log of some commands, each appended as \<open>run_store\<close> does.\<close>

primrec log_all :: "aof \<Rightarrow> command list \<Rightarrow> file_system \<Rightarrow> file_system outcome" where
  "log_all a [] fs = Return fs"
| "log_all a (c # cs) fs =
     obind (to_resp c) (\<lambda>r.
       case r of
         Some r \<Rightarrow> log_all a cs (aof_append a r fs)
       | None \<Rightarrow> log_all a cs fs)"

text \<open>The commands that leave a trace in the log are those with an encoding.\<close>

definition logged :: "command \<Rightarrow> bool" where
  "logged c \<longleftrightarrow> to_resp c \<noteq> Return None"

lemma get_append:
  "hm_get (files (aof_append (opened cfg) r fs)) p =
     (if p = data_path cfg then Some (file_content (data_path cfg) fs @ encode_resp r) else hm_get (files fs) p)"
  by (simp add: aof_append_def opened_def map_simps)

lemma log_all_outcome:
  assumes "list_all (\<lambda>c. logged c \<longrightarrow> travels c) cs"
  shows "\<exists>fs' rs. log_all (opened cfg) cs fs = Return fs' \<and> list_all resp_ok rs
    \<and> omap (\<lambda>r. obind (from_resp r) unwrap) rs = Return (filter logged cs)
    \<and> file_content (data_path cfg) fs' = file_content (data_path cfg) fs @ concat (map encode_resp rs)
    \<and> (\<forall>p. p \<noteq> data_path cfg \<longrightarrow> hm_get (files fs') p = hm_get (files fs) p)"
  using assms
proof (induction cs arbitrary: fs)
  case Nil
  then show ?case
    by (intro exI [of _ fs] exI [of _ "[]"]) simp
next
  case (Cons c cs)
  show ?case
  proof (cases "logged c")
    case False
    with Cons show ?thesis
      by (simp add: logged_def)
  next
    case True
    then have "travels c"
      using Cons.prems by simp
    then obtain r where r: "to_resp c = Return (Some r)" "from_resp r = decoded c"
      by (auto simp: travels_def elim: wire_roundtrip)
    with \<open>travels c\<close> have "resp_ok r"
      by (simp add: travels_def)
    have content: "file_content (data_path cfg) (aof_append (opened cfg) r fs) =
        file_content (data_path cfg) fs @ encode_resp r"
      by (simp add: get_append file_content_def)
    from Cons.IH [of "aof_append (opened cfg) r fs"] Cons.prems obtain fs' rs where
      "log_all (opened cfg) cs (aof_append (opened cfg) r fs) = Return fs'" "list_all resp_ok rs"
      "omap (\<lambda>r. obind (from_resp r) unwrap) rs = Return (filter logged cs)"
      "file_content (data_path cfg) fs' = file_content (data_path cfg) (aof_append (opened cfg) r fs) @ concat (map encode_resp rs)"
      "\<forall>p. p \<noteq> data_path cfg \<longrightarrow> hm_get (files fs') p = hm_get (files (aof_append (opened cfg) r fs)) p"
      by auto
    with r True \<open>resp_ok r\<close> show ?thesis
      by (intro exI [of _ fs'] exI [of _ "r # rs"]) (simp add: content get_append)
  qed
qed

text \<open>
  C12. The append-only file survives a restart: after a start on an empty log, with whatever
  commands logged, the next start finds the same data file through the manifest, and replays
  exactly those of the commands that have an encoding (\<open>SET\<close> among the commands that change
  data), in their order.
\<close>

theorem aof_restart_replays:
  assumes "appendonly cfg = as_bytes ''yes''" and "plain_name (appendfilename cfg)" and "manifest_intact cfg fs"
    and "file_content (data_path cfg) fs = []" and "list_all (\<lambda>c. logged c \<longrightarrow> travels c) cs"
  shows "\<exists>fs1 a fs2 fs3. from_config (\<lambda>_. True) cfg fs = Return (fs1, a) \<and> log_all a cs fs1 = Return fs2
    \<and> from_config (\<lambda>_. True) cfg fs2 = Return (fs3, a) \<and> get_initial_commands a fs3 = Return (filter logged cs)"
proof -
  obtain fs1 where fs1: "from_config (\<lambda>_. True) cfg fs = Return (fs1, opened cfg)" "manifest_intact cfg fs1"
    "hm_get (files fs1) (data_path cfg) = Some []"
    using from_config_opens [OF assms(1-3)] assms(4) by auto
  obtain fs2 rs where fs2: "log_all (opened cfg) cs fs1 = Return fs2" "list_all resp_ok rs"
    "omap (\<lambda>r. obind (from_resp r) unwrap) rs = Return (filter logged cs)"
    "file_content (data_path cfg) fs2 = concat (map encode_resp rs)"
    "\<forall>p. p \<noteq> data_path cfg \<longrightarrow> hm_get (files fs2) p = hm_get (files fs1) p"
    using log_all_outcome [OF assms(5), of cfg fs1] fs1(3) by (auto simp: file_content_def)
  have "manifest_intact cfg fs2"
    using fs1(2) fs2(5) paths_differ [of cfg] by (simp add: manifest_intact_def)
  then obtain fs3 where "from_config (\<lambda>_. True) cfg fs2 = Return (fs3, opened cfg)"
    "hm_get (files fs3) (data_path cfg) = Some (concat (map encode_resp rs))"
    using from_config_opens [OF assms(1,2)] fs2(4) by fastforce
  moreover from this have "get_initial_commands (opened cfg) fs3 = Return (filter logged cs)"
    using assms(1) fs2(2,3)
    by (simp add: get_initial_commands_def opened_def data_path_def [symmetric] parsed_resps_def parse_resp_def
        parse_resp_loop_encoded decode_commands_def)
  ultimately show ?thesis
    using fs1(1) fs2(1) by blast
qed

definition aof_config :: config where
  "aof_config = plain_config\<lparr>appendonly := as_bytes ''yes'', appendfilename := as_bytes ''appendonly.aof''\<rparr>"

theorem aof_restart_replays_witness:
  "\<exists>fs1 a fs2 fs3. from_config (\<lambda>_. True) aof_config \<lparr>files = [], directories = []\<rparr> = Return (fs1, a)
    \<and> log_all a [Set [97] [1] None None, Get [97], Set [98] [] None None] fs1 = Return fs2
    \<and> from_config (\<lambda>_. True) aof_config fs2 = Return (fs3, a)
    \<and> get_initial_commands a fs3 = Return [Set [97] [1] None None, Set [98] [] None None]"
  using aof_restart_replays [of aof_config "\<lparr>files = [], directories = []\<rparr>"
      "[Set [97] [1] None None, Get [97], Set [98] [] None None]"]
  by (simp add: aof_config_def plain_name_def manifest_intact_def file_content_def byte_simps hm_get_def
      logged_def travels_def wire_ok_def to_resp_def key_to_str_def expiry_args_def bulk_string_def from_utf8_def)

end
