(* ===== verification/Server.thy ===== *)
theory Server
  imports TryExecute Aof
begin

text \<open>
  \<open>run_store\<close>: the task that owns the store. It takes one envelope at a time from its
  queue, runs it on the store, and sends what follows from it. The handler of each envelope
  is a definition; \<open>handle\<close> is the \<open>match\<close> of the loop.
\<close>

record server =
  aof :: aof
  disk :: file_system
  store :: store

type_synonym served = "(server \<times> effect list) outcome"

section \<open>Start\<close>

primrec run_initial :: "env \<Rightarrow> command list \<Rightarrow> store \<Rightarrow> store outcome" where
  "run_initial e [] st = Return st"
| "run_initial e (cmd # cmds) st =
     obind (try_execute e 0 cmd st) (\<lambda>(st, _, _). run_initial e cmds st)"

definition start_server :: "env \<Rightarrow> aof \<Rightarrow> file_system \<Rightarrow> store \<Rightarrow> server outcome" where
  "start_server e a fs st =
     obind (get_initial_commands a fs) (\<lambda>cmds.
     obind (run_initial e cmds st) (\<lambda>st.
       Return \<lparr>aof = a, disk = fs, store = st\<rparr>))"

section \<open>A command with a reply channel\<close>

text \<open>What is sent to every connected replica, in iteration order.\<close>

definition push_to_replicas :: "env \<Rightarrow> command \<Rightarrow> store \<Rightarrow> effect list" where
  "push_to_replicas e cmd st =
     map (\<lambda>(c, _). SendPush c (Replicate cmd)) (filter snd (hm_iter (id_order e) (clients st)))"

text \<open>A command that is replicated counts its encoded length.\<close>

definition account :: "command \<Rightarrow> store \<Rightarrow> store outcome" where
  "account cmd st =
     (if is_replicatable cmd then
        obind (to_resp cmd) (\<lambda>r.
        obind (unwrap r) (\<lambda>r.
          Return (st\<lparr>pending_write_commands_for_wait := True,
                     master_ack := master_ack st + word_of_nat (resp_len r)\<rparr>)))
      else Return st)"

definition log_command :: "command \<Rightarrow> server \<Rightarrow> server outcome" where
  "log_command cmd sv =
     obind (to_resp cmd) (\<lambda>r.
       Return (case r of
           Some r \<Rightarrow> sv\<lparr>disk := aof_append (aof sv) r (disk sv)\<rparr>
         | None \<Rightarrow> sv))"

text \<open>The arms of the \<open>match\<close> on the result of \<open>try_execute\<close>.\<close>

definition reply_done :: "env \<Rightarrow> command \<Rightarrow> reply_channel \<Rightarrow> resp \<Rightarrow> store \<Rightarrow> effect list" where
  "reply_done e cmd chan reply st =
     SendReply chan reply # (if is_replicatable cmd then push_to_replicas e cmd st else [])"

definition block_xread ::
    "u64 option \<Rightarrow> reply_channel \<Rightarrow> waiter \<Rightarrow> key list \<Rightarrow> stream_key list \<Rightarrow> store \<Rightarrow> (store \<times> effect list) outcome" where
  "block_xread timeout chan w keys ids st =
     (let st = st\<lparr>stream_xread_waiters := hm_insert w (chan, keys, ids) (stream_xread_waiters st)\<rparr>
      in obind (unwrap timeout) (\<lambda>ms. Return (st, [StartTimer ms (TimeoutXread w)])))"

definition block_blpop ::
    "u64 option \<Rightarrow> reply_channel \<Rightarrow> waiter \<Rightarrow> key list \<Rightarrow> store \<Rightarrow> (store \<times> effect list) outcome" where
  "block_blpop timeout chan w keys st =
     (let st = st\<lparr>list_blpop_waiters := hm_insert w (chan, keys) (list_blpop_waiters st)\<rparr>
      in obind (unwrap timeout) (\<lambda>ms. Return (st, [StartTimer ms (TimeoutBlpop w)])))"

definition block_wait :: "env \<Rightarrow> reply_channel \<Rightarrow> waiter \<Rightarrow> u64 \<Rightarrow> u64 \<Rightarrow> store \<Rightarrow> store \<times> effect list" where
  "block_wait e chan w numreplicas timeout st =
     (let (st, out) =
            (if pending_write_commands_for_wait st
             then (st\<lparr>pending_write_commands_for_wait := False\<rparr>, push_to_replicas e ReplconfGetAck st)
             else (st, []));
          st = st\<lparr>wait_waiters := hm_insert w (chan, numreplicas, master_ack st) (wait_waiters st)\<rparr>
      in (st, out @ [StartTimer timeout (WaitCommandTimeout w)]))"

definition after_execute ::
    "env \<Rightarrow> command \<Rightarrow> reply_channel \<Rightarrow> try_execute_result \<Rightarrow> store \<Rightarrow> (store \<times> effect list) outcome" where
  "after_execute e cmd chan r st =
     (case r of
        Done reply \<Rightarrow> Return (st, reply_done e cmd chan reply st)
      | BlockingXread w keys ids \<Rightarrow> block_xread (block_timeout cmd) chan w keys ids st
      | BlockingBlpop w keys \<Rightarrow> block_blpop (block_timeout cmd) chan w keys st
      | WaitCommand w numreplicas timeout \<Rightarrow> Return (block_wait e chan w numreplicas timeout st)
      | NoResult \<Rightarrow> Return (st, []))"

definition handle_with_reply :: "env \<Rightarrow> client_id \<Rightarrow> command \<Rightarrow> reply_channel \<Rightarrow> server \<Rightarrow> served" where
  "handle_with_reply e c cmd chan sv =
     obind (account cmd (store sv)) (\<lambda>st.
     obind (log_command cmd (sv\<lparr>store := st\<rparr>)) (\<lambda>sv.
     obind (try_execute e c cmd (store sv)) (\<lambda>(st, out, r).
     obind (after_execute e cmd chan r st) (\<lambda>(st, out').
       Return (sv\<lparr>store := st\<rparr>, out @ out')))))"

section \<open>The other envelopes\<close>

definition timeout_xread :: "waiter \<Rightarrow> store \<Rightarrow> store \<times> effect list" where
  "timeout_xread w st =
     (case hm_get (stream_xread_waiters st) w of
        Some (chan, _, _) \<Rightarrow>
          (st\<lparr>stream_xread_waiters := hm_remove w (stream_xread_waiters st)\<rparr>, [SendReply chan NullArray])
      | None \<Rightarrow> (st, []))"

definition timeout_blpop :: "waiter \<Rightarrow> store \<Rightarrow> store \<times> effect list" where
  "timeout_blpop w st =
     (case hm_get (list_blpop_waiters st) w of
        Some (chan, _) \<Rightarrow>
          (st\<lparr>list_blpop_waiters := hm_remove w (list_blpop_waiters st)\<rparr>, [SendReply chan NullArray])
      | None \<Rightarrow> (st, []))"

definition timeout_wait :: "waiter \<Rightarrow> store \<Rightarrow> store \<times> effect list" where
  "timeout_wait w st =
     (case hm_get (wait_waiters st) w of
        Some (chan, _, target) \<Rightarrow>
          (st\<lparr>wait_waiters := hm_remove w (wait_waiters st)\<rparr>,
           [SendReply chan (Integer (count_acked target st))])
      | None \<Rightarrow> (st, []))"

definition add_replica :: "env \<Rightarrow> client_id \<Rightarrow> reply_channel \<Rightarrow> store \<Rightarrow> store \<times> effect list" where
  "add_replica e c chan st =
     (let st = st\<lparr>clients := hm_modify c (\<lambda>_. True) (clients st)\<rparr>
      in (st, [SendReply chan (File (serialize (key_order e) (to_rdb e st)))]))"

definition register_client :: "client_id \<Rightarrow> reply_channel \<Rightarrow> store \<Rightarrow> store \<times> effect list" where
  "register_client c chan st =
     (let st = st\<lparr>clients := hm_insert c False (clients st)\<rparr>;
          need_auth = (case hm_get (users st) (as_bytes ''default'') of
              Some passwords \<Rightarrow> passwords \<noteq> []
            | None \<Rightarrow> True)
      in (st, [SendNeedAuth chan need_auth]))"

definition unregister_client :: "client_id \<Rightarrow> store \<Rightarrow> store" where
  "unregister_client c st =
     st\<lparr>clients := hm_remove c (clients st), replica_acks := hm_remove c (replica_acks st)\<rparr>"

abbreviation on_store :: "server \<Rightarrow> store \<times> effect list \<Rightarrow> served" where
  "on_store sv x \<equiv> (case x of (st, out) \<Rightarrow> Return (sv\<lparr>store := st\<rparr>, out))"

definition handle :: "env \<Rightarrow> envelope \<Rightarrow> server \<Rightarrow> served" where
  "handle e m sv =
     (case m of
        WithReply c cmd chan \<Rightarrow> handle_with_reply e c cmd chan sv
      | TimeoutXread w \<Rightarrow> on_store sv (timeout_xread w (store sv))
      | TimeoutBlpop w \<Rightarrow> on_store sv (timeout_blpop w (store sv))
      | WaitCommandTimeout w \<Rightarrow> on_store sv (timeout_wait w (store sv))
      | AddReplica c chan \<Rightarrow> on_store sv (add_replica e c chan (store sv))
      | ReplicateEnvelope cmd \<Rightarrow>
          obind (try_execute e 0 cmd (store sv)) (\<lambda>(st, out, _). Return (sv\<lparr>store := st\<rparr>, out))
      | RegisterClient c chan \<Rightarrow> on_store sv (register_client c chan (store sv))
      | UnregisterClient c \<Rightarrow> Return (sv\<lparr>store := unregister_client c (store sv)\<rparr>, []))"

section \<open>What the result of a command says\<close>

text \<open>
  Which command a result belongs to: only an acknowledgement has none, and a command that
  blocks has a timeout.
\<close>

definition result_of :: "command \<Rightarrow> try_execute_result \<Rightarrow> bool" where
  "result_of cmd r =
     (case r of
        Done _ \<Rightarrow> (case cmd of ReplconfAck _ \<Rightarrow> False | _ \<Rightarrow> True)
      | BlockingXread _ ks _ \<Rightarrow> (case cmd of Xread ks' (Some _) _ \<Rightarrow> ks' = ks | _ \<Rightarrow> False)
      | BlockingBlpop _ ks \<Rightarrow> (case cmd of Blpop ks' _ \<Rightarrow> ks' = ks | _ \<Rightarrow> False)
      | WaitCommand _ n timeout \<Rightarrow> cmd = Wait n timeout
      | NoResult \<Rightarrow> (case cmd of ReplconfAck _ \<Rightarrow> True | _ \<Rightarrow> False))"

lemma result_of_blocking:
  "command_xread ks ms ids st = Return (st', out, r) \<Longrightarrow> result_of (Xread ks ms ids) r"
  "command_blpop ks st = (st', r) \<Longrightarrow> result_of (Blpop ks t) r"
  "command_wait n t st = (st', r) \<Longrightarrow> result_of (Wait n t) r"
  by (auto simp: command_xread_def command_blpop_def command_wait_def result_of_def Let_def
      split: if_splits prod.splits)

lemma result_of_simps [simp]:
  "result_of cmd (Done r) \<longleftrightarrow> (\<forall>n. cmd \<noteq> ReplconfAck n)"
  "result_of cmd NoResult \<longleftrightarrow> (\<exists>n. cmd = ReplconfAck n)"
  by (cases cmd; simp add: result_of_def)+

lemma result_of_execute_simple:
  assumes "execute_simple e c cmd st = Return (st', out, r)"
  shows "result_of cmd r"
  using assms
  by (cases cmd; simp only: execute_simple_def command.case)
    (auto simp: result_of_blocking command_xadd_def command_rpush_def command_lpush_def push_with_def
      command_subscribe_def command_unsubscribe_def command_replconf_ack_def Let_def
      split: option.splits primitive_value.splits sum.splits prod.splits if_splits)

lemma result_of_try_execute:
  assumes "try_execute e c cmd st = Return (st', out, r)"
  shows "result_of cmd r"
proof (cases "is_tx cmd")
  case True
  then obtain cmds where "cmd = InternalExecuteTx cmds"
    by (cases cmd) (auto simp: is_tx_def)
  with assms show ?thesis
    by (auto simp: try_execute_tx split: if_splits prod.splits)
next
  case False
  with assms show ?thesis
    by (auto simp: try_execute_simple intro: result_of_execute_simple)
qed

section \<open>The invariant along an envelope\<close>

text \<open>
  What may be posted to the store: commands that were decoded, or a queue of them. The
  channel that an envelope brings is owed an answer, unless it reports an offset.
\<close>

definition envelope_ok :: "envelope \<Rightarrow> bool" where
  "envelope_ok m =
     (case m of
        WithReply _ cmd _ \<Rightarrow> executable cmd
      | ReplicateEnvelope cmd \<Rightarrow> executable cmd
      | _ \<Rightarrow> True)"

definition owed :: "envelope \<Rightarrow> reply_channel multiset" where
  "owed m =
     (case m of
        WithReply _ (ReplconfAck _) _ \<Rightarrow> {#}
      | WithReply _ _ chan \<Rightarrow> {#chan#}
      | AddReplica _ chan \<Rightarrow> {#chan#}
      | _ \<Rightarrow> {#})"

text \<open>Every client that is blocked was so before, or a timer is started for it.\<close>

definition new_waiters_timed :: "store \<Rightarrow> effect list \<Rightarrow> store \<Rightarrow> bool" where
  "new_waiters_timed st out st' \<longleftrightarrow>
     (\<forall>x \<in> set (stream_xread_waiters st'). x \<in> set (stream_xread_waiters st) \<or> TimeoutXread (fst x) \<in># timers_of out)
     \<and> (\<forall>x \<in> set (list_blpop_waiters st'). x \<in> set (list_blpop_waiters st) \<or> TimeoutBlpop (fst x) \<in># timers_of out)
     \<and> (\<forall>x \<in> set (wait_waiters st'). x \<in> set (wait_waiters st) \<or> WaitCommandTimeout (fst x) \<in># timers_of out)"

definition is_timeout :: "envelope \<Rightarrow> bool" where
  "is_timeout m =
     (case m of
        TimeoutXread _ \<Rightarrow> True
      | TimeoutBlpop _ \<Rightarrow> True
      | WaitCommandTimeout _ \<Rightarrow> True
      | _ \<Rightarrow> False)"

definition serves_well :: "store \<Rightarrow> reply_channel multiset \<Rightarrow> effect list \<Rightarrow> store \<Rightarrow> bool" where
  "serves_well st debt out st' \<longleftrightarrow> store_wf st' \<and> answered out + pending st' = pending st + debt
     \<and> waiter_id st \<le> waiter_id st' \<and> new_waiters_timed st out st' \<and> (\<forall>m \<in># timers_of out. is_timeout m)"

lemma new_waiters_timed_refl [simp]: "new_waiters_timed st out st"
  by (simp add: new_waiters_timed_def)

lemma no_new_waiters_timed: "no_new_waiters st st' \<Longrightarrow> new_waiters_timed st out st'"
  by (auto simp: no_new_waiters_def new_waiters_timed_def)

lemma serves_well_trans:
  "keeps st out st1 \<Longrightarrow> serves_well st1 debt out' st' \<Longrightarrow> serves_well st debt (out @ out') st'"
  by (auto simp: keeps_def serves_well_def no_new_waiters_def new_waiters_timed_def ac_simps)

lemma keeps_serves_well: "keeps st out st' \<Longrightarrow> serves_well st {#} out st'"
  by (simp add: keeps_def serves_well_def no_new_waiters_timed)

lemma owed_WithReply:
  "owed (WithReply c cmd chan) = (case cmd of ReplconfAck _ \<Rightarrow> {#} | _ \<Rightarrow> {#chan#})"
  by (cases cmd) (simp_all add: owed_def)

lemma answered_pushes_to [simp]:
  "answered (push_to_replicas e cmd st) = {#}" "timers_of (push_to_replicas e cmd st) = {#}"
  by (simp_all add: push_to_replicas_def answered_def timers_of_def reply_of_def split_def)

lemma is_timeout_simps [simp]:
  "is_timeout (TimeoutXread w)" "is_timeout (TimeoutBlpop w)" "is_timeout (WaitCommandTimeout w)"
  by (simp_all add: is_timeout_def)

lemma serves_well_after:
  assumes "store_wf st" and "result_ok st r" and "result_of cmd r"
    and "after_execute e cmd chan r st = Return (st', out)"
  shows "serves_well st (owed (WithReply c cmd chan)) out st'"
proof (cases r)
  case (Done x)
  with assms(4) have "st' = st" "answered out = {#chan#}" "timers_of out = {#}"
    by (auto simp: after_execute_def reply_done_def)
  with Done assms(1,3) show ?thesis
    by (cases cmd) (simp_all add: serves_well_def owed_def)
next
  case (BlockingXread w ks ids)
  with assms have st': "st' = stream_xread_waiters_update (hm_insert w (chan, ks, ids)) st" "answered out = {#}"
    and timer: "timers_of out = {#TimeoutXread w#}"
    by (auto simp: after_execute_def block_xread_def Let_def)
  then have "new_waiters_timed st out st'"
    using xread_table.table_wf [OF assms(1)] by (auto simp: new_waiters_timed_def mem_hm_insert)
  with st' timer BlockingXread assms show ?thesis
    using xread_table.put [of st w "(chan, ks, ids)"]
    by (cases cmd) (auto simp: serves_well_def result_ok_def result_of_def owed_def)
next
  case (BlockingBlpop w ks)
  with assms have st': "st' = list_blpop_waiters_update (hm_insert w (chan, ks)) st" "answered out = {#}"
    and timer: "timers_of out = {#TimeoutBlpop w#}"
    by (auto simp: after_execute_def block_blpop_def Let_def)
  then have "new_waiters_timed st out st'"
    using blpop_table.table_wf [OF assms(1)] by (auto simp: new_waiters_timed_def mem_hm_insert)
  with st' timer BlockingBlpop assms show ?thesis
    using blpop_table.put [of st w "(chan, ks)"]
    by (cases cmd) (auto simp: serves_well_def result_ok_def result_of_def owed_def)
next
  case (WaitCommand w n t)
  define st1 where "st1 = st\<lparr>pending_write_commands_for_wait := False\<rparr>"
  have "store_wf st1" "fresh_waiter w st1" "pending st1 = pending st" "waiter_id st1 = waiter_id st"
    "fresh_waiter w st"
    using assms(1,2) WaitCommand
    by (simp_all add: st1_def store_wf_def waiters_wf_def parties_wf_def fresh_waiter_def waiter_ids_def
        pending_def result_ok_def)
  moreover have "new_waiters_timed st out st'"
    using assms(4) WaitCommand wait_table.table_wf [OF assms(1)]
    by (auto simp: after_execute_def block_wait_def Let_def new_waiters_timed_def mem_hm_insert split: if_splits)
  moreover have "(st' = wait_waiters_update (hm_insert w (chan, n, master_ack st)) st1
      \<or> st' = wait_waiters_update (hm_insert w (chan, n, master_ack st)) st) \<and> answered out = {#} \<and> timers_of out = {#WaitCommandTimeout w#}"
    using assms(4) WaitCommand by (auto simp: after_execute_def block_wait_def Let_def st1_def split: if_splits)
  ultimately show ?thesis
    using wait_table.put [of _ w "(chan, n, master_ack st)"] assms(1,3) WaitCommand
    by (cases cmd) (auto simp: serves_well_def result_of_def owed_def)
next
  case NoResult
  with assms show ?thesis
    by (auto simp: after_execute_def serves_well_def owed_def)
qed

lemma table_updates:
  "st\<lparr>stream_xread_waiters := hm_remove w (stream_xread_waiters st)\<rparr> = stream_xread_waiters_update (hm_remove w) st"
  "st\<lparr>list_blpop_waiters := hm_remove w (list_blpop_waiters st)\<rparr> = list_blpop_waiters_update (hm_remove w) st"
  "st\<lparr>wait_waiters := hm_remove w (wait_waiters st)\<rparr> = wait_waiters_update (hm_remove w) st"
  by simp_all

lemma on_store_Return [simp]: "on_store sv x = Return (sv', out) \<longleftrightarrow> sv' = sv\<lparr>store := fst x\<rparr> \<and> out = snd x"
  by (cases x) auto

lemma keeps_account:
  assumes "store_wf st" and "account cmd st = Return st'"
  shows "keeps st [] st'"
  using assms
  by (auto simp: account_def store_wf_def parties_wf_def intro!: keeps_same_waiters split: if_splits)
    (simp_all add: same_waiters_def)

text \<open>The log of the store task is the one of theory \<open>Aof\<close>, command by command.\<close>

lemma log_command_log_all:
  "log_command cmd sv = obind (log_all (aof sv) [cmd] (disk sv)) (\<lambda>fs. Return (sv\<lparr>disk := fs\<rparr>))"
  by (cases "to_resp cmd") (auto simp: log_command_def split: option.splits)

lemma log_command_store: "log_command cmd sv = Return sv' \<Longrightarrow> store sv' = store sv \<and> aof sv' = aof sv"
  by (auto simp: log_command_def split: option.splits)

lemma serves_well_timeouts:
  assumes "store_wf st"
  shows "keeps st (snd (timeout_xread w st)) (fst (timeout_xread w st))"
    and "keeps st (snd (timeout_blpop w st)) (fst (timeout_blpop w st))"
    and "keeps st (snd (timeout_wait w st)) (fst (timeout_wait w st))"
  using xread_table.take(1,2) [OF assms, of w] blpop_table.take(1,2) [OF assms, of w]
    wait_table.take(1,2) [OF assms, of w]
  unfolding timeout_xread_def timeout_blpop_def timeout_wait_def table_updates
  by (auto simp: keeps_refl assms keeps_def split: option.splits)

lemma serves_well_parties:
  assumes "store_wf st"
  shows "serves_well st {#chan#} (snd (add_replica e c chan st)) (fst (add_replica e c chan st))"
    and "keeps st (snd (register_client c chan st)) (fst (register_client c chan st))"
    and "keeps st [] (unregister_client c st)"
  using assms
  by (auto simp: add_replica_def register_client_def unregister_client_def Let_def serves_well_def keeps_def
      store_wf_def parties_wf_def waiters_wf_def waiter_ids_def pending_def no_new_waiters_def new_waiters_timed_def)

lemma serves_well_handle:
  assumes wf: "store_wf (store sv)" and ok: "envelope_ok m" and served: "handle e m sv = Return (sv', out)"
  shows "serves_well (store sv) (owed m) out (store sv')"
proof (cases m)
  case (WithReply c cmd chan)
  with served obtain st1 sv1 st2 out2 r st3 out3 where steps: "account cmd (store sv) = Return st1"
    "log_command cmd (sv\<lparr>store := st1\<rparr>) = Return sv1" "try_execute e c cmd (store sv1) = Return (st2, out2, r)"
    "after_execute e cmd chan r st2 = Return (st3, out3)" "store sv' = st3" "out = out2 @ out3"
    by (auto simp: handle_def handle_with_reply_def)
  have st1: "keeps (store sv) [] st1" and sv1: "store sv1 = st1"
    using keeps_account [OF wf steps(1)] log_command_store [OF steps(2)] by simp_all
  then have "good st1 (Return (st2, out2, r))"
    using good_try_execute [of st1 cmd e c] steps(3) ok WithReply by (simp add: keeps_def envelope_ok_def)
  then have "keeps st1 out2 st2" "result_ok st2 r"
    by simp_all
  moreover from this have "serves_well st2 (owed m) out3 st3"
    using serves_well_after [OF _ _ result_of_try_execute [OF steps(3)] steps(4)] WithReply
    by (simp add: keeps_def)
  ultimately show ?thesis
    using serves_well_trans keeps_trans [OF st1, of out2 st2] steps(5,6) by fastforce
next
  case (ReplicateEnvelope cmd)
  with served obtain st1 r where "try_execute e 0 cmd (store sv) = Return (st1, out, r)" "store sv' = st1"
    by (auto simp: handle_def)
  with ReplicateEnvelope show ?thesis
    using good_try_execute [OF wf, of cmd e 0] ok by (simp add: envelope_ok_def owed_def keeps_serves_well)
qed (use served serves_well_timeouts [OF wf] serves_well_parties [OF wf] in
    \<open>auto simp: handle_def owed_def intro: keeps_serves_well\<close>)

end
