(* ===== verification/Wakeups.thy ===== *)
theory Wakeups
  imports Server
begin

text \<open>
  No wake-up is lost: a client stays blocked only while there is nothing for it. Between two
  envelopes no key of a client that waits in \<open>BLPOP\<close> holds a list with an element, and no
  stream of a client that waits in \<open>XREAD\<close> has an entry after the id it gave.
\<close>

section \<open>The invariant\<close>

definition nothing_to_pop :: "store \<Rightarrow> key list \<Rightarrow> bool" where
  "nothing_to_pop st ks = list_all (\<lambda>k. \<not> has_element st k) ks"

definition nothing_to_read :: "store \<Rightarrow> key list \<Rightarrow> stream_key list \<Rightarrow> bool" where
  "nothing_to_read st ks ids = list_all (\<lambda>(k, i). unread st k i = []) (zip ks ids)"

definition pops_served :: "store \<Rightarrow> bool" where
  "pops_served st = list_all (\<lambda>(_, _, ks). nothing_to_pop st ks) (list_blpop_waiters st)"

definition reads_served :: "store \<Rightarrow> bool" where
  "reads_served st = list_all (\<lambda>(_, _, ks, ids). nothing_to_read st ks ids) (stream_xread_waiters st)"

definition result_served :: "store \<Rightarrow> try_execute_result \<Rightarrow> bool" where
  "result_served st r =
     (case r of
        BlockingXread _ ks ids \<Rightarrow> nothing_to_read st ks ids
      | BlockingBlpop _ ks \<Rightarrow> nothing_to_pop st ks
      | _ \<Rightarrow> True)"

definition settled :: "exec_result \<Rightarrow> bool" where
  "settled x =
     (case x of
        Return (st, _, r) \<Rightarrow> pops_served st \<and> reads_served st \<and> result_served st r
      | Panic _ \<Rightarrow> True)"

lemma settled_simps [simp]:
  "settled (Return (st, out, r)) \<longleftrightarrow> pops_served st \<and> reads_served st \<and> result_served st r"
  "settled (Panic p)" "result_served st (Done x)" "result_served st NoResult"
  by (simp_all add: settled_def result_served_def)

lemma settled_obind: "(\<And>r. x = Return r \<Longrightarrow> settled (f r)) \<Longrightarrow> settled (obind x f)"
  by (cases x) simp_all

text \<open>A step after which no list has an element, and no stream an entry, that was not there.\<close>

definition gains_nothing :: "store \<Rightarrow> store \<Rightarrow> bool" where
  "gains_nothing st st' \<longleftrightarrow>
     (\<forall>k. has_element st' k \<longrightarrow> has_element st k) \<and> (\<forall>k i. unread st k i = [] \<longrightarrow> unread st' k i = [])"

definition quiet :: "store \<Rightarrow> store \<Rightarrow> bool" where
  "quiet st st' \<longleftrightarrow> stream_xread_waiters st' = stream_xread_waiters st
     \<and> list_blpop_waiters st' = list_blpop_waiters st \<and> gains_nothing st st'"

lemma gains_nothing_lists:
  assumes "gains_nothing st st'"
  shows "nothing_to_pop st ks \<Longrightarrow> nothing_to_pop st' ks"
    and "nothing_to_read st ks ids \<Longrightarrow> nothing_to_read st' ks ids"
  using assms by (auto simp: gains_nothing_def nothing_to_pop_def nothing_to_read_def list_all_iff)

lemma gains_nothing_refl [simp]: "gains_nothing st st"
  by (simp add: gains_nothing_def)

lemma gains_nothing_trans: "gains_nothing st st' \<Longrightarrow> gains_nothing st' st'' \<Longrightarrow> gains_nothing st st''"
  by (simp add: gains_nothing_def)

lemma quiet_served:
  assumes "quiet st st'"
  shows "pops_served st \<Longrightarrow> pops_served st'" and "reads_served st \<Longrightarrow> reads_served st'"
  using assms gains_nothing_lists [of st st']
  by (auto simp: quiet_def pops_served_def reads_served_def list_all_iff)

lemma gains_nothing_same_data: "data st' = data st \<Longrightarrow> gains_nothing st st'"
  by (simp add: gains_nothing_def has_element_def list_at_def unread_def stream_at_def)

text \<open>Storing a value that offers no more than the one it replaces.\<close>

definition offers_at_most :: "primitive_value \<Rightarrow> entry option \<Rightarrow> bool" where
  "offers_at_most p old =
     (case p of
        Str _ \<Rightarrow> True
      | List [] \<Rightarrow> True
      | List _ \<Rightarrow> (case old of Some v \<Rightarrow> (case prim v of List (_ # _) \<Rightarrow> True | _ \<Rightarrow> False) | None \<Rightarrow> False)
      | Stream [] \<Rightarrow> True
      | Stream _ \<Rightarrow> False)"

lemma gains_nothing_insert:
  assumes "offers_at_most (prim v) (hm_get (data st) k)"
  shows "gains_nothing st (st\<lparr>data := hm_insert k v (data st)\<rparr>)"
  using assms
  by (auto simp: gains_nothing_def has_element_def list_at_def unread_def stream_at_def map_simps
      offers_at_most_def range_after_def split: primitive_value.splits list.splits option.splits)

lemma quiet_refl [simp]: "quiet st st"
  by (simp add: quiet_def)

lemma quiet_insert:
  assumes "offers_at_most (prim v) (hm_get (data st) k)"
  shows "quiet st (st\<lparr>data := hm_insert k v (data st)\<rparr>)"
  using gains_nothing_insert [OF assms] by (simp add: quiet_def)

lemma quiet_same_data:
  "stream_xread_waiters st' = stream_xread_waiters st \<Longrightarrow> list_blpop_waiters st' = list_blpop_waiters st \<Longrightarrow>
     data st' = data st \<Longrightarrow> quiet st st'"
  by (simp add: quiet_def gains_nothing_same_data)

section \<open>Commands that offer nothing\<close>

lemma quiet_keys:
  "quiet st (fst (command_set e k v ex px st))" "quiet st (fst (command_incr k st))"
  by (auto simp: command_set_def command_incr_def Let_def offers_at_most_def intro!: quiet_insert
      split: option.splits primitive_value.splits)

lemma quiet_lpop: "quiet st (fst (command_lpop k n st))"
  by (auto simp: command_lpop_def pop_up_to_append Let_def offers_at_most_def intro!: quiet_insert
      split: option.splits primitive_value.splits list.splits)

lemma quiet_fetch_blpop: "quiet st (fst (fetch_blpop ks st))"
  by (induction ks) (auto simp: offers_at_most_def intro!: quiet_insert
      split: option.splits primitive_value.splits list.splits)

lemma quiet_watches:
  "quiet st (mark_modified c ks st)" "quiet st (fst (command_watch c ks st))" "quiet st (cleanup_watches c st)"
  "quiet st (fst (command_unwatch c st))" "quiet st (fst (command_discard c st))"
  by (simp_all add: quiet_same_data mark_modified_def command_watch_def cleanup_watches_def
      command_unwatch_def command_discard_def)

lemma quiet_misc:
  "quiet st (fst (command_zadd k s m st))" "quiet st (fst (command_zrem k m st))"
  "quiet st (fst (command_geoadd k lon lat m st))" "quiet st (fst (command_acl_setuser e u pw st))"
  by (auto simp: quiet_same_data command_zadd_def command_zrem_def command_geoadd_def
      command_acl_setuser_def Let_def split: prod.splits)

text \<open>The blocking commands: what does not block changes little, what blocks has nothing.\<close>

lemma served_waiter_id [simp]:
  "pops_served (st\<lparr>waiter_id := n\<rparr>) = pops_served st" "reads_served (st\<lparr>waiter_id := n\<rparr>) = reads_served st"
  "nothing_to_pop (st\<lparr>waiter_id := n\<rparr>) ks = nothing_to_pop st ks"
  "nothing_to_read (st\<lparr>waiter_id := n\<rparr>) ks ids = nothing_to_read st ks ids"
  by (simp_all add: pops_served_def reads_served_def nothing_to_pop_def nothing_to_read_def has_element_def
      list_at_def unread_def stream_at_def)

lemma settled_blpop:
  assumes "pops_served st" and "reads_served st"
  shows "settled (results (command_blpop ks st))"
proof -
  obtain st1 rsp emp where fetch: "fetch_blpop ks st = (st1, rsp, emp)"
    by (metis prod_cases3)
  then have "pops_served st1" "reads_served st1"
    using quiet_served [OF quiet_fetch_blpop [of st ks]] assms by simp_all
  moreover have "emp \<Longrightarrow> nothing_to_pop st1 ks"
    using fetch_blpop_empty [of ks st] fetch_blpop_empty_iff [of ks st] fetch
    by (auto simp: nothing_to_pop_def list_all_iff)
  ultimately show ?thesis
    using fetch by (simp add: command_blpop_def result_served_def)
qed

lemma nothing_to_read_Cons [simp]:
  "nothing_to_read st (k # ks) (i # ids) \<longleftrightarrow> unread st k i = [] \<and> nothing_to_read st ks ids"
  by (simp add: nothing_to_read_def)

lemma fetch_xread_empty:
  "fetch_xread_from i ks ids st = Return (rows, True) \<Longrightarrow> nothing_to_read st ks (drop i ids)"
proof (induction ks arbitrary: i rows)
  case (Cons k ks)
  show ?case
  proof (cases "i < length ids")
    case True
    then have drop: "drop i ids = ids ! i # drop (Suc i) ids"
      by (simp add: Cons_nth_drop_Suc)
    show ?thesis
      using Cons.prems True Cons.IH [of "Suc i"] unfolding drop nothing_to_read_Cons
      by (cases "stream_at k st") (auto simp: unread_eq index_def Let_def)
  qed (simp add: nothing_to_read_def)
qed (simp add: nothing_to_read_def)

lemma settled_xread:
  assumes "pops_served st" and "reads_served st"
  shows "settled (command_xread ks ms ids st)"
  using assms fetch_xread_empty [of 0 ks _ st]
  by (auto simp: command_xread_def fetch_xread_def result_served_def intro!: settled_obind)

section \<open>Pushing to a list\<close>

lemma served_blpop_waiter:
  assumes wf: "store_wf st" and served: "serve_blpop_waiter w st = Return (st', out)"
  shows "gains_nothing st st'" and "stream_xread_waiters st' = stream_xread_waiters st"
    and "set (list_blpop_waiters st') \<subseteq> set (list_blpop_waiters st)"
    and "(w, ch, ks) \<in> set (list_blpop_waiters st') \<Longrightarrow> nothing_to_pop st' ks"
proof -
  obtain ch ks where get: "hm_get (list_blpop_waiters st) w = Some (ch, ks)"
    using served by (auto simp: serve_blpop_waiter_def)
  define st1 where "st1 = st\<lparr>list_blpop_waiters := hm_remove w (list_blpop_waiters st)\<rparr>"
  have absent: "hm_get (list_blpop_waiters st1) w = None"
    by (simp add: st1_def map_simps)
  have start: "gains_nothing st st1"
    by (simp add: st1_def gains_nothing_same_data)
  obtain st2 rsp emp where fetch: "fetch_blpop ks st1 = (st2, rsp, emp)"
    by (metis prod_cases3)
  have quiet: "quiet st1 st2" and same: "same_waiters st1 st2"
    using quiet_fetch_blpop [of st1 ks] fetch_blpop_same [of st1 ks] fetch by simp_all
  have *: "gains_nothing st st' \<and> stream_xread_waiters st' = stream_xread_waiters st
    \<and> set (list_blpop_waiters st') \<subseteq> set (list_blpop_waiters st)
    \<and> (\<forall>ch ks. (w, ch, ks) \<in> set (list_blpop_waiters st') \<longrightarrow> nothing_to_pop st' ks)"
  proof (cases emp)
    case False
    then have st': "st' = st2"
      using served get fetch remove_waiter_twice [OF same absent]
      by (simp add: serve_blpop_waiter_def st1_def Let_def)
    then have "list_blpop_waiters st' = hm_remove w (list_blpop_waiters st)"
      using quiet by (simp add: quiet_def st1_def)
    moreover have "gains_nothing st st'" "stream_xread_waiters st' = stream_xread_waiters st"
      using start quiet gains_nothing_trans [of st st1 st2] by (auto simp: st' quiet_def st1_def)
    ultimately show ?thesis
      by (auto simp: mem_hm_remove)
  next
    case True
    then have "st2 = st1" "nothing_to_pop st1 ks"
      using fetch_blpop_empty [of ks st1] fetch_blpop_empty_iff [of ks st1] fetch
      by (auto simp: nothing_to_pop_def list_all_iff)
    moreover from True this(1) have st': "st' = st1\<lparr>list_blpop_waiters := hm_insert w (ch, ks) (list_blpop_waiters st1)\<rparr>"
      using served get fetch by (auto simp: serve_blpop_waiter_def st1_def Let_def)
    moreover have "gains_nothing st1 st'"
      by (simp add: st' gains_nothing_same_data)
    ultimately show ?thesis
      using start gains_nothing_trans [of st st1 st'] gains_nothing_lists(1) [of st1 st'] hm_get_mem [OF get]
        hm_wf_remove [OF blpop_table.table_wf [OF wf]]
      by (auto simp: st1_def mem_hm_insert mem_hm_remove)
  qed
  then show "gains_nothing st st'" "stream_xread_waiters st' = stream_xread_waiters st"
    "set (list_blpop_waiters st') \<subseteq> set (list_blpop_waiters st)"
    "(w, ch, ks) \<in> set (list_blpop_waiters st') \<Longrightarrow> nothing_to_pop st' ks" for ch ks
    by simp_all
qed

text \<open>The waiters still to be looked at are all that may find something.\<close>

definition poppers_among :: "waiter list \<Rightarrow> store \<Rightarrow> bool" where
  "poppers_among ws st \<longleftrightarrow>
     (\<forall>(w, _, ks) \<in> set (list_blpop_waiters st). w \<in> set ws \<or> nothing_to_pop st ks)"

lemma served_blpop_waiters:
  assumes "store_wf st" and "serve_blpop_waiters ws st = Return (st', out)" and "poppers_among ws st"
  shows "pops_served st' \<and> gains_nothing st st' \<and> stream_xread_waiters st' = stream_xread_waiters st"
  using assms
proof (induction ws arbitrary: st out)
  case Nil
  then show ?case
    by (auto simp: poppers_among_def pops_served_def list_all_iff)
next
  case (Cons w ws)
  then obtain st1 out1 out2 where first: "serve_blpop_waiter w st = Return (st1, out1)"
    and rest: "serve_blpop_waiters ws st1 = Return (st', out2)"
    by auto
  note step = served_blpop_waiter [OF Cons.prems(1) first]
  have "store_wf st1"
    using keeps_serve_blpop_waiter [OF Cons.prems(1) first] by (simp add: keeps_def)
  moreover have "poppers_among ws st1"
    unfolding poppers_among_def
  proof clarify
    fix w' ch ks
    assume mem: "(w', ch, ks) \<in> set (list_blpop_waiters st1)" and "\<not> nothing_to_pop st1 ks"
    then have "w' \<noteq> w" "\<not> nothing_to_pop st ks"
      using step(4) gains_nothing_lists(1) [OF step(1)] by auto
    with mem step(3) Cons.prems(3) show "w' \<in> set ws"
      by (auto simp: poppers_among_def)
  qed
  ultimately have "pops_served st' \<and> gains_nothing st1 st' \<and> stream_xread_waiters st' = stream_xread_waiters st1"
    by (intro Cons.IH [OF _ rest])
  with step(1,2) show ?case
    using gains_nothing_trans by auto
qed

lemma interested_mem:
  assumes "env_ok e" and "hm_wf m" and "(w, v) \<in> set m" and "k \<in> set (keys_of v)"
  shows "w \<in> set (interested e keys_of k m)"
proof -
  have "(w, v) \<in> set (hm_iter (id_order e) m)"
    using assms(1-3) by (simp add: env_ok_def set_hm_iter)
  with assms(4) show ?thesis
    by (force simp: interested_def)
qed

lemma settled_push:
  assumes wf: "store_wf st" and e: "env_ok e" and "pops_served st" and "reads_served st"
  shows "settled (push_with e k grow initial st)"
proof -
  have "settled (obind (notify_blpop_waiters e k st1) (\<lambda>(st, out). Return (st, out, Done r)))"
    if st1: "st1 = st\<lparr>data := hm_insert k v (data st)\<rparr>" and v: "prim v = List xs" for st1 v xs r
  proof (rule settled_obind)
    fix x
    assume "notify_blpop_waiters e k st1 = Return x"
    then obtain st' out where x: "x = (st', out)"
      and ran: "serve_blpop_waiters (interested e snd k (list_blpop_waiters st1)) st1 = Return (st', out)"
      by (cases x) (auto simp: notify_blpop_waiters_def)
    have "entry_wf v"
      using v by (simp add: entry_wf_def)
    then have wf1: "store_wf st1"
      using wf by (simp add: st1 store_wf_data store_wf_data_wf)
    have "k \<in> set ks \<or> nothing_to_pop st1 ks" if "(w, ch, ks) \<in> set (list_blpop_waiters st1)" for w ch ks
      using that assms(3)
      by (auto simp: st1 pops_served_def nothing_to_pop_def list_all_iff has_element_def list_at_insert)
    then have "poppers_among (interested e snd k (list_blpop_waiters st1)) st1"
      using interested_mem [OF e blpop_table.table_wf [OF wf1], where keys_of = snd and k = k]
      by (fastforce simp: poppers_among_def)
    note * = served_blpop_waiters [OF wf1 ran this]
    have "unread st1 k' i = []" if "unread st k' i = []" for k' i
      using that v by (auto simp: st1 unread_def stream_at_def map_simps)
    then have "reads_served st1"
      using assms(4) by (fastforce simp: st1 reads_served_def nothing_to_read_def list_all_iff)
    then have "reads_served st'"
      using * gains_nothing_lists(2) [of st1 st'] by (auto simp: reads_served_def list_all_iff)
    with * show "settled (case x of (st, out) \<Rightarrow> Return (st, out, Done r))"
      by (simp add: x)
  qed
  then show ?thesis
    by (auto simp: push_with_def Let_def split: option.splits primitive_value.splits)
qed

section \<open>Adding to a stream\<close>

lemma interested_readers_mem:
  assumes "env_ok e" and "store_wf st" and "(w, ch, ks, ids) \<in> set (stream_xread_waiters st)" and "k \<in> set ks"
  shows "w \<in> set (interested_readers e k st)"
proof -
  have "(w, ch, ks, ids) \<in> set (hm_iter (id_order e) (stream_xread_waiters st))"
    using assms(1-3) xread_table.table_wf by (simp add: env_ok_def set_hm_iter)
  with assms(4) show ?thesis
    by (force simp: interested_readers_def)
qed

lemma settled_xadd:
  assumes wf: "store_wf st" and e: "env_ok e" and "pops_served st" and "reads_served st"
  shows "settled (command_xadd e k ident fvs st)"
proof -
  define st1 where "st1 = st\<lparr>data := hm_or_insert k \<lparr>prim = Stream [], expire_ms = None\<rparr> (data st)\<rparr>"
  have "quiet st st1"
    by (auto simp: st1_def hm_or_insert_def offers_at_most_def quiet_insert split: option.splits)
  then have st1: "pops_served st1" "reads_served st1"
    using quiet_served assms(3,4) by auto
  have wf1: "store_wf st1"
    using wf by (simp add: st1_def store_wf_data data_wf_or_insert store_wf_data_wf)
  have added: "settled (obind (notify_xread_waiters e k st2) (\<lambda>(st, out). Return (st, out, Done r)))"
    if st2: "st2 = st1\<lparr>data := hm_insert k v (data st1)\<rparr>" and v: "prim v = Stream xs" "entry_wf v"
    for st2 v xs r
  proof (rule settled_obind)
    fix x
    assume "notify_xread_waiters e k st2 = Return x"
    then obtain st' out where x: "x = (st', out)"
      and ran: "serve_xread_waiters (interested_readers e k st2) st2 = Return (st', out)"
      by (cases x) (auto simp: notify_xread_waiters_def)
    have wf2: "store_wf st2"
      using wf1 v(2) by (simp add: st2 store_wf_data store_wf_data_wf)
    note * = served_xread_waiters [OF ran]
    have "pops_served st2"
      using st1(1) v(1) by (auto simp: st2 pops_served_def nothing_to_pop_def list_all_iff has_element_def list_at_insert)
    with * have pops: "pops_served st'"
      using gains_nothing_lists(1) [OF gains_nothing_same_data, of st' st2] by (auto simp: pops_served_def list_all_iff)
    have "nothing_to_read st' ks ids" if "(w, ch, ks, ids) \<in> set (stream_xread_waiters st')" for w ch ks ids
    proof -
      from that * have mem: "(w, ch, ks, ids) \<in> set (stream_xread_waiters st2)"
        and "w \<notin> set (interested_readers e k st2)"
        by auto
      then have "k \<notin> set ks"
        using interested_readers_mem [OF e wf2] by blast
      moreover have "nothing_to_read st1 ks ids"
        using st1(2) mem by (auto simp: reads_served_def list_all_iff st2)
      ultimately have "nothing_to_read st2 ks ids"
        by (auto simp: st2 nothing_to_read_def unread_def stream_at_def map_simps list_all_iff
            dest: set_zip_leftD)
      with * show ?thesis
        using gains_nothing_lists(2) [OF gains_nothing_same_data] by auto
    qed
    with pops show "settled (case x of (st, out) \<Rightarrow> Return (st, out, Done r))"
      by (auto simp: x reads_served_def list_all_iff)
  qed
  then show ?thesis
    using st1 wf1 unfolding command_xadd_def Let_def st1_def [symmetric]
    by (auto intro!: added [OF refl] entry_wf_add(2) intro: data_wf_get store_wf_data_wf
        split: option.splits primitive_value.splits sum.splits)
qed

section \<open>Every command\<close>

definition served :: "store \<Rightarrow> bool" where
  "served st \<longleftrightarrow> pops_served st \<and> reads_served st"

lemma served_quiet: "quiet st st' \<Longrightarrow> served st \<Longrightarrow> served st'"
  by (simp add: served_def quiet_served)

lemma settled_replies: "served st \<Longrightarrow> quiet st (fst x) \<Longrightarrow> settled (replies x)"
  using quiet_served [of st "fst x"] by (cases x) (simp add: served_def)

lemma settled_reads: "served st \<Longrightarrow> settled (reads st x)"
  by (cases x) (simp_all add: served_def)

lemma settled_published: "served st \<Longrightarrow> settled (case x of (out, r) \<Rightarrow> Return (st, out, Done r))"
  by (cases x) (simp add: served_def)

lemma settled_wait: "served st \<Longrightarrow> settled (results (command_wait n t st))"
  by (simp add: command_wait_def Let_def served_def result_served_def)

lemma settled_pubsub:
  assumes "served st"
  shows "settled (command_subscribe c chs st)" and "settled (command_unsubscribe c chs st)"
proof -
  have "quiet st (st\<lparr>pubsub := p\<rparr>)" for p
    by (simp add: quiet_same_data)
  then have "served (st\<lparr>pubsub := p\<rparr>)" for p
    using assms served_quiet by blast
  then show "settled (command_subscribe c chs st)" and "settled (command_unsubscribe c chs st)"
    by (auto simp: command_subscribe_def command_unsubscribe_def Let_def served_def intro!: settled_obind)
qed

lemma answer_waits_data:
  "answer_waits ws st = Return (st', out) \<Longrightarrow> data st' = data st
     \<and> list_blpop_waiters st' = list_blpop_waiters st \<and> stream_xread_waiters st' = stream_xread_waiters st"
  by (induction ws arbitrary: st out) (auto simp: Let_def, (fastforce+)?)

lemma settled_replconf_ack:
  assumes "served st"
  shows "settled (command_replconf_ack e c n st)"
proof -
  have "quiet st st'" if "answer_waits ws (st\<lparr>replica_acks := a\<rparr>) = Return (st', out)" for ws a st' out
    using answer_waits_data [OF that] by (simp add: quiet_same_data)
  then show ?thesis
    using assms served_quiet
    by (fastforce simp: command_replconf_ack_def Let_def served_def intro!: settled_obind)
qed

lemma settled_execute_simple:
  assumes "store_wf st" and "env_ok e" and "served st"
  shows "settled (execute_simple e c cmd st)"
proof -
  note arms = settled_push [OF assms(1,2)] settled_xadd [OF assms(1,2)] settled_xread settled_blpop
    settled_wait settled_pubsub settled_replconf_ack quiet_keys quiet_lpop quiet_watches quiet_misc
    settled_reads [OF assms(3)] settled_published [OF assms(3)]
  show ?thesis
    using assms(3) settled_replies [OF assms(3)]
    by (cases cmd; simp only: execute_simple_def command.case)
      (simp_all add: arms served_def command_rpush_def command_lpush_def)
qed

lemma settled_decoded:
  assumes "store_wf st" and "env_ok e" and "served st" and "decoded_ok cmd"
  shows "settled (try_execute e c cmd st)"
proof -
  have "store_wf (mark_modified c ks st)" "served (mark_modified c ks st)" for ks
    using keeps_tx(1) [OF assms(1)] served_quiet [OF quiet_watches(1) assms(3)] by (simp_all add: keeps_def)
  then show ?thesis
    using settled_execute_simple assms(2) decoded_not_tx [OF assms(4)] by (simp add: try_execute_simple)
qed

lemma served_exec_all:
  assumes "exec_all (try_execute e c) cmds st = Return (st', out, rs)"
    and "store_wf st" and "env_ok e" and "served st" and "list_all decoded_ok cmds"
  shows "served st'"
  using assms
proof (induction cmds arbitrary: st out rs)
  case (Cons cmd cmds)
  then obtain st1 out1 r out2 rs2 where step: "try_execute e c cmd st = Return (st1, out1, r)"
    "exec_all (try_execute e c) cmds st1 = Return (st', out2, rs2)"
    by auto
  have "store_wf st1"
    using good_decoded [of st cmd e c] Cons.prems step(1) by (simp add: keeps_def)
  moreover have "served st1"
    using settled_decoded [of st e cmd c] Cons.prems step(1) by (simp add: served_def)
  ultimately show ?case
    using Cons.IH [OF step(2)] Cons.prems by simp
qed simp

lemma settled_try_execute:
  assumes "store_wf st" and "env_ok e" and "served st" and "executable cmd"
  shows "settled (try_execute e c cmd st)"
proof (cases "is_tx cmd")
  case False
  then have "decoded_ok cmd"
    using assms(4) by (cases cmd) (simp_all add: is_tx_def executable_def)
  with assms show ?thesis
    by (intro settled_decoded)
next
  case True
  then obtain cmds where cmd: "cmd = InternalExecuteTx cmds" "list_all decoded_ok cmds"
    using assms(4) by (cases cmd) (auto simp: is_tx_def executable_def)
  have "served (cleanup_watches c st')" if "served st'" for st'
    using served_quiet [OF quiet_watches(3) that] .
  moreover have "served st'" if "exec_all (try_execute e c) cmds st = Return (st', out, rs)" for st' out rs
    using served_exec_all [OF that] assms(1-3) cmd(2) by simp
  ultimately show ?thesis
    using assms(3) by (auto simp: cmd try_execute_tx served_def intro!: settled_obind)
qed

section \<open>Every envelope\<close>

text \<open>The tables have lost waiters, or gained some for whom there is nothing.\<close>

lemma served_tables:
  assumes "served st" and "data st' = data st"
    and "\<And>w ch ks. (w, ch, ks) \<in> set (list_blpop_waiters st') \<Longrightarrow>
      (w, ch, ks) \<in> set (list_blpop_waiters st) \<or> nothing_to_pop st ks"
    and "\<And>w ch ks ids. (w, ch, ks, ids) \<in> set (stream_xread_waiters st') \<Longrightarrow>
      (w, ch, ks, ids) \<in> set (stream_xread_waiters st) \<or> nothing_to_read st ks ids"
  shows "served st'"
proof -
  note keep = gains_nothing_lists [OF gains_nothing_same_data [OF assms(2)]]
  have pops: "nothing_to_pop st ks" if "(w, ch, ks) \<in> set (list_blpop_waiters st')" for w ch ks
    using assms(3) [OF that] assms(1) by (auto simp: served_def pops_served_def list_all_iff)
  have reads: "nothing_to_read st ks ids" if "(w, ch, ks, ids) \<in> set (stream_xread_waiters st')" for w ch ks ids
    using assms(4) [OF that] assms(1) by (auto simp: served_def reads_served_def list_all_iff)
  from pops reads show ?thesis
    using keep by (auto simp: served_def pops_served_def reads_served_def list_all_iff)
qed

lemma served_after:
  assumes "after_execute e cmd chan r st = Return (st', out)" and "served st" and "result_served st r" and "store_wf st"
  shows "served st'"
proof (cases r)
  case (BlockingXread w ks ids)
  with assms have st': "st' = st\<lparr>stream_xread_waiters := hm_insert w (chan, ks, ids) (stream_xread_waiters st)\<rparr>"
    by (auto simp: after_execute_def block_xread_def Let_def)
  show ?thesis
    using assms(3) BlockingXread xread_table.table_wf [OF assms(4)]
    by (intro served_tables [OF assms(2)]) (auto simp: st' mem_hm_insert result_served_def)
next
  case (BlockingBlpop w ks)
  with assms have st': "st' = st\<lparr>list_blpop_waiters := hm_insert w (chan, ks) (list_blpop_waiters st)\<rparr>"
    by (auto simp: after_execute_def block_blpop_def Let_def)
  show ?thesis
    using assms(3) BlockingBlpop blpop_table.table_wf [OF assms(4)]
    by (intro served_tables [OF assms(2)]) (auto simp: st' mem_hm_insert result_served_def)
next
  case (WaitCommand w n t)
  with assms(1) have "data st' = data st" "list_blpop_waiters st' = list_blpop_waiters st"
    "stream_xread_waiters st' = stream_xread_waiters st"
    by (auto simp: after_execute_def block_wait_def Let_def split: if_splits)
  then show ?thesis
    by (intro served_tables [OF assms(2)]) simp_all
qed (use assms in \<open>auto simp: after_execute_def\<close>)

lemma served_timeouts:
  assumes "served st"
  shows "served (fst (timeout_xread w st))" "served (fst (timeout_blpop w st))" "served (fst (timeout_wait w st))"
    "served (fst (add_replica e c chan st))" "served (fst (register_client c chan st))"
    "served (unregister_client c st)"
proof -
  show "served (fst (timeout_xread w st))"
    by (rule served_tables [OF assms]) (auto simp: timeout_xread_def mem_hm_remove split: option.splits)
  show "served (fst (timeout_blpop w st))"
    by (rule served_tables [OF assms]) (auto simp: timeout_blpop_def mem_hm_remove split: option.splits)
  show "served (fst (timeout_wait w st))"
    by (rule served_tables [OF assms]) (auto simp: timeout_wait_def split: option.splits)
qed (use assms in \<open>simp_all add: add_replica_def register_client_def unregister_client_def Let_def served_quiet [OF quiet_same_data]\<close>)

lemma served_account:
  assumes "account cmd st = Return st'" and "served st"
  shows "served st'"
  using assms(1) by (auto simp: account_def assms(2) intro!: served_tables [OF assms(2)] split: if_splits)

lemma served_handle:
  assumes wf: "store_wf (store sv)" and e: "env_ok e" and s: "served (store sv)" and ok: "envelope_ok m"
    and handled: "handle e m sv = Return (sv', out)"
  shows "served (store sv')"
proof (cases m)
  case (WithReply c cmd chan)
  with handled obtain st1 sv1 st2 out2 r st3 out3 where steps: "account cmd (store sv) = Return st1"
    "log_command cmd (sv\<lparr>store := st1\<rparr>) = Return sv1" "try_execute e c cmd (store sv1) = Return (st2, out2, r)"
    "after_execute e cmd chan r st2 = Return (st3, out3)" "store sv' = st3"
    by (auto simp: handle_def handle_with_reply_def)
  have wf1: "store_wf (store sv1)" and s1: "served (store sv1)"
    using keeps_account [OF wf steps(1)] served_account [OF steps(1) s] log_command_store [OF steps(2)]
    by (simp_all add: keeps_def)
  have cmd: "executable cmd"
    using ok WithReply by (simp add: envelope_ok_def)
  have "store_wf st2" "served st2" "result_served st2 r"
    using good_try_execute [OF wf1 cmd, of e c] settled_try_execute [OF wf1 e s1 cmd, of c] steps(3)
    by (simp_all add: keeps_def served_def)
  with served_after [OF steps(4)] steps(5) show ?thesis
    by simp
next
  case (ReplicateEnvelope cmd)
  with handled obtain st1 r where "try_execute e 0 cmd (store sv) = Return (st1, out, r)" "store sv' = st1"
    by (auto simp: handle_def)
  with ReplicateEnvelope show ?thesis
    using settled_try_execute [OF wf e s, of cmd 0] ok by (simp add: envelope_ok_def served_def)
qed (use handled served_timeouts [OF s] in \<open>auto simp: handle_def\<close>)

end
