(* ===== verification/System.thy ===== *)
theory System
  imports Wakeups
begin

text \<open>
  The whole server as a transition system: the store task, which takes one envelope at a time,
  and the timers it has started, each of which posts its envelope at some later time. Every
  step has its own environment (clock, hash order).
\<close>

section \<open>Start\<close>

text \<open>
  The set-up of \<open>main\<close>: the append-only file, the store from the RDB file, then the replay of
  the append-only file by \<open>run_store\<close>.
\<close>

definition boot :: "env \<Rightarrow> (bytes \<Rightarrow> bool) \<Rightarrow> config \<Rightarrow> file_system \<Rightarrow> server outcome" where
  "boot e permitted cfg fs =
     obind (from_config permitted cfg fs) (\<lambda>(fs, a).
     obind (store_new e (hm_get (files fs)) (replicaof cfg \<noteq> None) cfg) (\<lambda>st.
       start_server e a fs st))"

section \<open>Steps\<close>

record system =
  srv :: server
  timers :: "envelope multiset"

datatype event = Posted env envelope | Fired env envelope

definition event_owes :: "event \<Rightarrow> reply_channel multiset" where
  "event_owes x = (case x of Posted _ m \<Rightarrow> owed m | Fired _ m \<Rightarrow> owed m)"

inductive step :: "system \<Rightarrow> event \<Rightarrow> effect list \<Rightarrow> system \<Rightarrow> bool" where
  posted: "env_ok e \<Longrightarrow> envelope_ok m \<Longrightarrow> \<not> is_timeout m \<Longrightarrow> handle e m (srv s) = Return (sv, out) \<Longrightarrow>
    step s (Posted e m) out \<lparr>srv = sv, timers = timers s + timers_of out\<rparr>"
| fired: "env_ok e \<Longrightarrow> m \<in># timers s \<Longrightarrow> handle e m (srv s) = Return (sv, out) \<Longrightarrow>
    step s (Fired e m) out \<lparr>srv = sv, timers = timers s - {#m#} + timers_of out\<rparr>"

inductive steps :: "system \<Rightarrow> event list \<Rightarrow> effect list \<Rightarrow> system \<Rightarrow> bool" where
  stop: "steps s [] [] s"
| more: "step s x out s1 \<Longrightarrow> steps s1 xs outs s' \<Longrightarrow> steps s (x # xs) (out @ outs) s'"

inductive_cases stepE: "step s x out s'"

inductive_simps steps_Nil [simp]: "steps s [] out s'"
  and steps_Cons: "steps s (x # xs) out s'"

definition booted :: "system \<Rightarrow> bool" where
  "booted s \<longleftrightarrow> timers s = {#}
     \<and> (\<exists>e permitted cfg fs. env_ok e \<and> boot e permitted cfg fs = Return (srv s))"

section \<open>The invariant at the start\<close>

lemma hm_wf_single [simp]: "hm_wf [x]"
  by (simp add: hm_wf_def)

lemma data_wf_rdb: "data_wf d \<Longrightarrow> data_wf (fold (\<lambda>(k, v). hm_insert k (entry_of_rdb v)) kvs d)"
  by (induction kvs arbitrary: d) (auto simp: entry_of_rdb_def)

lemma store_new_wf: "store_new e read_file replica cfg = Return st \<Longrightarrow> store_wf st \<and> pending st = {#}"
  by (auto simp: store_new_def from_rdb_def pending_def data_wf_def hm_wf_def
      intro!: store_wf_fresh data_wf_rdb split: option.splits)
    (simp_all add: fresh_store_def)

lemma decode_commands_ok: "decode_commands rs = Return cmds \<Longrightarrow> list_all decoded_ok cmds"
  by (induction rs arbitrary: cmds) (auto simp: decode_commands_def dest: from_resp_sound)

lemma run_initial_wf:
  assumes "run_initial e cmds st = Return st'" and "store_wf st" and "list_all decoded_ok cmds"
  shows "store_wf st' \<and> (pending st = {#} \<longrightarrow> pending st' = {#})"
  using assms
proof (induction cmds arbitrary: st)
  case (Cons cmd cmds)
  then obtain st1 out r where step: "try_execute e 0 cmd st = Return (st1, out, r)"
    and rest: "run_initial e cmds st1 = Return st'"
    by auto
  have "keeps st out st1"
    using good_decoded [of st cmd e 0] Cons.prems step by simp
  with Cons.IH [OF rest] Cons.prems(3) show ?case
    by (auto simp: keeps_def)
qed simp

lemma get_initial_commands_ok:
  "get_initial_commands a fs = Return cmds \<Longrightarrow> list_all decoded_ok cmds"
  by (auto simp: get_initial_commands_def dest: decode_commands_ok split: if_splits)

lemma booted_wf:
  assumes "booted s"
  shows "store_wf (store (srv s))" and "pending (store (srv s)) = {#}" and "timers s = {#}"
  using assms
  by (auto simp: booted_def boot_def start_server_def dest!: get_initial_commands_ok store_new_wf run_initial_wf
      sym [where t = "srv s"])

section \<open>The invariant along a run\<close>

text \<open>Every blocked client has a timer that is still running.\<close>

definition timed :: "system \<Rightarrow> bool" where
  "timed s \<longleftrightarrow>
     (\<forall>x \<in> set (stream_xread_waiters (store (srv s))). TimeoutXread (fst x) \<in># timers s)
     \<and> (\<forall>x \<in> set (list_blpop_waiters (store (srv s))). TimeoutBlpop (fst x) \<in># timers s)
     \<and> (\<forall>x \<in> set (wait_waiters (store (srv s))). WaitCommandTimeout (fst x) \<in># timers s)"

definition system_ok :: "system \<Rightarrow> bool" where
  "system_ok s \<longleftrightarrow> store_wf (store (srv s)) \<and> served (store (srv s)) \<and> timed s
     \<and> (\<forall>m \<in># timers s. is_timeout m)"

lemma no_waiters:
  assumes "pending st = {#}"
  shows "stream_xread_waiters st = [] \<and> list_blpop_waiters st = [] \<and> wait_waiters st = []"
  using assms by (simp add: pending_def)

lemma booted_ok: "booted s \<Longrightarrow> system_ok s"
  using booted_wf [of s] no_waiters [of "store (srv s)"]
  by (simp add: system_ok_def timed_def served_def pops_served_def reads_served_def)

text \<open>One handled envelope, whatever it was: what \<open>posted\<close> and \<open>fired\<close> have in common.\<close>

lemma timed_more:
  assumes "timed s" and "new_waiters_timed (store (srv s)) out (store sv)"
  shows "timed \<lparr>srv = sv, timers = timers s + timers_of out\<rparr>"
  using assms unfolding timed_def new_waiters_timed_def by (auto; blast)

lemma timer_taken:
  assumes "handle e m (srv s) = Return (sv, out)" and "is_timeout m"
  shows "x \<in> set (stream_xread_waiters (store sv)) \<Longrightarrow> TimeoutXread (fst x) \<noteq> m"
    and "y \<in> set (list_blpop_waiters (store sv)) \<Longrightarrow> TimeoutBlpop (fst y) \<noteq> m"
    and "z \<in> set (wait_waiters (store sv)) \<Longrightarrow> WaitCommandTimeout (fst z) \<noteq> m"
  using assms
  by (force simp: handle_def timeout_xread_def timeout_blpop_def timeout_wait_def mem_hm_remove
      hm_get_None_iff split: option.splits)+

lemma in_remove_other: "x \<noteq> y \<Longrightarrow> x \<in># M - {#y#} \<longleftrightarrow> x \<in># M"
  by (simp add: in_diff_count)

lemma step_ok:
  assumes "step s x out s'" and "system_ok s"
  shows "system_ok s'" and "serves_well (store (srv s)) (event_owes x) out (store (srv s'))"
proof -
  have wf: "store_wf (store (srv s))" and s: "served (store (srv s))" and t: "timed s"
    and ts: "\<forall>m \<in># timers s. is_timeout m"
    using assms(2) by (simp_all add: system_ok_def)
  from assms(1) have "system_ok s' \<and> serves_well (store (srv s)) (event_owes x) out (store (srv s'))"
  proof cases
    case (posted e m sv)
    note h = serves_well_handle [OF wf posted(4,6)] served_handle [OF wf posted(3) s posted(4,6)]
    with timed_more [OF t, of out sv] ts posted(1,2) show ?thesis
      by (auto simp: system_ok_def serves_well_def event_owes_def)
  next
    case (fired e m sv)
    have "is_timeout m"
      using ts fired(4) by blast
    then have ok: "envelope_ok m"
      by (cases m) (simp_all add: is_timeout_def envelope_ok_def)
    note h = serves_well_handle [OF wf ok fired(5)] served_handle [OF wf fired(3) s ok fired(5)]
    have "timed \<lparr>srv = sv, timers = timers s + timers_of out\<rparr>"
      using timed_more [OF t] h(1) by (simp add: serves_well_def)
    then have "timed s'"
      using timer_taken [OF fired(5) \<open>is_timeout m\<close>]
      by (simp add: fired(2) timed_def in_remove_other)
    with h ts fired(1,2) show ?thesis
      by (auto simp: system_ok_def serves_well_def event_owes_def dest: in_diffD)
  qed
  then show "system_ok s'" and "serves_well (store (srv s)) (event_owes x) out (store (srv s'))"
    by simp_all
qed

lemma steps_ok:
  "steps s xs out s' \<Longrightarrow> system_ok s \<Longrightarrow>
     system_ok s' \<and> answered out + pending (store (srv s')) = pending (store (srv s)) + (\<Sum>x\<leftarrow>xs. event_owes x)"
proof (induction rule: steps.induct)
  case (more s x out s1 xs outs s')
  then show ?case
    using step_ok [OF more.hyps(1)] by (auto simp: serves_well_def ac_simps)
qed simp

lemma reachable_ok:
  assumes "booted s" and "steps s xs out s'"
  shows "system_ok s'"
  using assms booted_ok steps_ok by blast

section \<open>An example run\<close>

text \<open>
  A server without files on which one client blocks in \<open>BLPOP\<close>, another in \<open>XREAD\<close>; a third
  pushes to a list.
\<close>

definition demo_start :: system where
  "demo_start = \<lparr>srv = \<lparr>aof = \<lparr>aof_dir = [], aof_appendonly = [], aof_appenddirname = [],
         aof_appendfilename = [], aof_appendfsync = [], aof_file = None\<rparr>,
       disk = \<lparr>files = [], directories = []\<rparr>, store = fresh_store False plain_config []\<rparr>, timers = {#}\<rparr>"

definition demo_next :: "envelope \<Rightarrow> system \<Rightarrow> system \<times> effect list" where
  "demo_next m s =
     (case handle plain_env m (srv s) of
        Return (sv, out) \<Rightarrow> (\<lparr>srv = sv, timers = timers s + timers_of out\<rparr>, out)
      | Panic _ \<Rightarrow> (s, []))"

definition demo_pop :: envelope where
  "demo_pop = WithReply 1 (Blpop [as_bytes ''k''] 0) 11"

definition demo_read :: envelope where
  "demo_read = WithReply 2 (Xread [as_bytes ''s''] (Some 50) [XreadExplicit 0 1]) 12"

definition demo_push :: envelope where
  "demo_push = WithReply 3 (Rpush (as_bytes ''k'') [as_bytes ''v'']) 13"

definition demo_blocked :: system where
  "demo_blocked = fst (demo_next demo_read (fst (demo_next demo_pop demo_start)))"

lemma demo_booted: "booted demo_start"
proof -
  have "boot plain_env (\<lambda>_. True) plain_config \<lparr>files = [], directories = []\<rparr> = Return (srv demo_start)"
    by code_simp
  moreover have "timers demo_start = {#}"
    by (simp add: demo_start_def)
  ultimately show ?thesis
    unfolding booted_def using plain_env_ok by blast
qed

lemma demo_step:
  assumes "snd (demo_next m s) = out" and "out \<noteq> []" and "envelope_ok m" and "\<not> is_timeout m"
  shows "step s (Posted plain_env m) out (fst (demo_next m s))"
  using assms step.posted [OF plain_env_ok, of m s]
  by (auto simp: demo_next_def split: outcome.splits)

lemma demo_effects:
  "snd (demo_next demo_pop demo_start) = [StartTimer (- 1) (TimeoutBlpop 1)]"
  "snd (demo_next demo_read (fst (demo_next demo_pop demo_start))) = [StartTimer 50 (TimeoutXread 2)]"
  "snd (demo_next demo_push demo_blocked) =
     [SendReply 11 (Array [BulkString (as_bytes ''k''), BulkString (as_bytes ''v'')]), SendReply 13 (Integer 1)]"
  by code_simp+

lemma demo_run:
  "steps demo_start [Posted plain_env demo_pop, Posted plain_env demo_read]
     [StartTimer (- 1) (TimeoutBlpop 1), StartTimer 50 (TimeoutXread 2)] demo_blocked"
  using steps.more [OF demo_step [OF demo_effects(1)]
      steps.more [OF demo_step [OF demo_effects(2)] steps.stop]]
  by (simp add: demo_blocked_def demo_pop_def demo_read_def envelope_ok_def executable_def decoded_ok_def is_timeout_def)

lemma demo_waiters:
  "list_blpop_waiters (store (srv demo_blocked)) = [(1, 11, [as_bytes ''k''])]"
  "stream_xread_waiters (store (srv demo_blocked)) = [(2, 12, [as_bytes ''s''], [(0, 1)])]"
  "wait_waiters (store (srv demo_blocked)) = []"
  by code_simp+

section \<open>Properties\<close>

text \<open>
  C2. In every state that the server reaches, whatever the clients post, whenever the timers
  fire and however the hash maps are ordered, the invariant of the store holds: maps have
  distinct keys, sets distinct elements, streams are strictly increasing and hold no id below
  0-1, every watched key has a watcher, waiter ids are unique and below the counter, and
  sorted sets are sorted with one entry per member.
\<close>

theorem store_invariant:
  assumes "booted s" and "steps s xs out s'"
  shows "store_wf (store (srv s'))"
  using reachable_ok [OF assms] by (simp add: system_ok_def)

theorem store_invariant_witness: "store_wf (store (srv demo_blocked))"
  by (rule store_invariant [OF demo_booted demo_run])

text \<open>
  C1. Reply channels are conserved: along any run, the channels that were answered together
  with those of the clients still blocked are exactly those that the envelopes brought, with
  their multiplicity. No request is forgotten, none is answered twice, and nothing is sent to
  a channel that nobody waits on (an offset report expects no answer).
\<close>

theorem replies_conserved:
  assumes "booted s" and "steps s xs out s'"
  shows "answered out + pending (store (srv s')) = (\<Sum>x\<leftarrow>xs. event_owes x)"
  using steps_ok [OF assms(2) booted_ok [OF assms(1)]] booted_wf(2) [OF assms(1)] by simp

theorem replies_conserved_witness: "pending (store (srv demo_blocked)) = {#11, 12#}"
  using replies_conserved [OF demo_booted demo_run]
  by (simp add: event_owes_def owed_def demo_pop_def demo_read_def)

text \<open>
  C3. No client blocks for ever: in every reachable state each blocked client has its timer
  still running, and the step in which that timer fires is enabled and answers the client (a
  null array, or the number of replicas that have caught up).
\<close>

theorem blocked_client_times_out:
  assumes "booted s0" and "steps s0 xs outs s" and "env_ok e"
  shows "(\<forall>ch ks ids. hm_get (stream_xread_waiters (store (srv s))) w = Some (ch, ks, ids) \<longrightarrow>
      (\<exists>s'. step s (Fired e (TimeoutXread w)) [SendReply ch NullArray] s'))
    \<and> (\<forall>ch ks. hm_get (list_blpop_waiters (store (srv s))) w = Some (ch, ks) \<longrightarrow>
      (\<exists>s'. step s (Fired e (TimeoutBlpop w)) [SendReply ch NullArray] s'))
    \<and> (\<forall>ch n target. hm_get (wait_waiters (store (srv s))) w = Some (ch, n, target) \<longrightarrow>
      (\<exists>s'. step s (Fired e (WaitCommandTimeout w)) [SendReply ch (Integer (count_acked target (store (srv s'))))] s'))"
proof -
  have timed: "timed s"
    using reachable_ok [OF assms(1,2)] by (simp add: system_ok_def)
  have xread: "\<exists>s'. step s (Fired e (TimeoutXread w)) [SendReply ch NullArray] s'"
    if get: "hm_get (stream_xread_waiters (store (srv s))) w = Some (ch, ks, ids)" for ch ks ids
  proof -
    from get have "TimeoutXread w \<in># timers s"
      using timed hm_get_mem [OF get] by (force simp: timed_def)
    then show ?thesis
      using step.fired [OF assms(3)] get by (fastforce simp: handle_def timeout_xread_def)
  qed
  have pop: "\<exists>s'. step s (Fired e (TimeoutBlpop w)) [SendReply ch NullArray] s'"
    if get: "hm_get (list_blpop_waiters (store (srv s))) w = Some (ch, ks)" for ch ks
  proof -
    from get have "TimeoutBlpop w \<in># timers s"
      using timed hm_get_mem [OF get] by (force simp: timed_def)
    then show ?thesis
      using step.fired [OF assms(3)] get by (fastforce simp: handle_def timeout_blpop_def)
  qed
  have wait: "\<exists>s'. step s (Fired e (WaitCommandTimeout w))
      [SendReply ch (Integer (count_acked target (store (srv s'))))] s'"
    if get: "hm_get (wait_waiters (store (srv s))) w = Some (ch, n, target)" for ch n target
  proof -
    define st where "st = store (srv s)\<lparr>wait_waiters := hm_remove w (wait_waiters (store (srv s)))\<rparr>"
    have timer: "WaitCommandTimeout w \<in># timers s"
      using timed hm_get_mem [OF get] by (force simp: timed_def)
    have handled: "handle e (WaitCommandTimeout w) (srv s) =
        Return ((srv s)\<lparr>store := st\<rparr>, [SendReply ch (Integer (count_acked target st))])"
      using get by (simp add: handle_def timeout_wait_def st_def count_acked_def replicas_count_def)
    show ?thesis
      using step.fired [OF assms(3) timer handled]
      by (intro exI [of _ "\<lparr>srv = (srv s)\<lparr>store := st\<rparr>, timers = timers s - {#WaitCommandTimeout w#}\<rparr>"]) simp
  qed
  from xread pop wait show ?thesis
    by blast
qed

theorem blocked_client_times_out_witness:
  "\<exists>s'. step demo_blocked (Fired plain_env (TimeoutXread 2)) [SendReply 12 NullArray] s'"
  using blocked_client_times_out [OF demo_booted demo_run plain_env_ok, of 2] by (simp add: demo_waiters hm_get_def)

text \<open>
  C4. No wake-up of \<open>BLPOP\<close> is lost: in every reachable state, no key that a blocked client
  named holds a list with an element, whatever sequence of pushes, pops, overwrites,
  transactions and time-outs led there.
\<close>

theorem no_missed_pop:
  assumes "booted s0" and "steps s0 xs outs s"
    and "hm_get (list_blpop_waiters (store (srv s))) w = Some (ch, ks)" and "k \<in> set ks"
  shows "list_at k (store (srv s)) = None \<or> list_at k (store (srv s)) = Some []"
proof -
  have "nothing_to_pop (store (srv s)) ks"
    using reachable_ok [OF assms(1,2)] hm_get_mem [OF assms(3)]
    by (fastforce simp: system_ok_def served_def pops_served_def list_all_iff)
  then have "\<not> has_element (store (srv s)) k"
    using assms(4) by (simp add: nothing_to_pop_def list_all_iff)
  then show ?thesis
    by (auto simp: has_element_def split: option.splits list.splits)
qed

theorem no_missed_pop_witness: "list_at (as_bytes ''k'') (store (srv demo_blocked)) \<noteq> Some [as_bytes ''v'']"
  using no_missed_pop [OF demo_booted demo_run, of 1 11 "[as_bytes ''k'']" "as_bytes ''k''"]
  by (auto simp: demo_waiters hm_get_def)

text \<open>
  C5. No wake-up of \<open>XREAD BLOCK\<close> is lost: in every reachable state, no stream that a blocked
  client reads has an entry after the id that goes with it.
\<close>

theorem no_missed_read:
  assumes "booted s0" and "steps s0 xs outs s"
    and "hm_get (stream_xread_waiters (store (srv s))) w = Some (ch, ks, ids)" and "i < length ks"
    and "stream_at (ks ! i) (store (srv s)) = Some rows" and "(j, fvs) \<in> set rows"
  shows "i < length ids \<and> j \<le> ids ! i"
proof -
  note ok = reachable_ok [OF assms(1,2)] and mem = hm_get_mem [OF assms(3)]
  have len: "length ks = length ids"
    using ok xread_table.get_ok [OF _ assms(3)] by (simp add: system_ok_def)
  then have "(ks ! i, ids ! i) \<in> set (zip ks ids)"
    using assms(4) by (force simp: set_zip)
  then have "unread (store (srv s)) (ks ! i) (ids ! i) = []"
    using ok mem by (fastforce simp: system_ok_def served_def reads_served_def nothing_to_read_def list_all_iff)
  with assms(4-6) len show ?thesis
    by (force simp: unread_eq range_after_def filter_empty_conv not_less)
qed

theorem no_missed_read_witness:
  "stream_at (as_bytes ''s'') (store (srv demo_blocked)) \<noteq> Some [((0, 2), [])]"
  using no_missed_read [OF demo_booted demo_run, of 2 12 "[as_bytes ''s'']" "[(0, 1)]" 0 "[((0, 2), [])]" "(0, 2)" "[]"]
  by (auto simp: demo_waiters hm_get_def word_le_nat_alt)

end
