(* ===== verification/Client.thy ===== *)
theory Client
  imports Command
begin

text \<open>
  \<open>client.rs\<close>: the mode of a connection (normal, inside \<open>MULTI\<close>, subscribed), and what one
  command does to it: the next mode and what the connection task must do.
\<close>

datatype client_dispatch =
    Execute command
  | ExecuteNoReply command
  | Reply resp
  | StartReplica command
  | MustAuth bytes bytes

datatype client_run_mode =
    Normal
  | Transaction "command list"
  | Subscription

definition no_auth_error :: resp where
  "no_auth_error = simple_error ''NOAUTH Authentication required.''"

definition ok_reply :: resp where
  "ok_reply = simple_string ''OK''"

definition subscription_error :: "command \<Rightarrow> resp" where
  "subscription_error c =
     SimpleError (as_bytes ''ERR Can't execute '' @ [39] @ as_bytes (name c) @ [39] @ as_bytes
       '': only (P|S)SUBSCRIBE / (P|S)UNSUBSCRIBE / PING / QUIT / RESET are allowed in this context'')"

text \<open>The arms of the \<open>match\<close> for each mode.\<close>

definition run_normal :: "command \<Rightarrow> client_run_mode \<times> client_dispatch" where
  "run_normal c =
     (case c of
        ReplconfListeningPort _ \<Rightarrow> (Normal, Reply ok_reply)
      | ReplconfCapa _ \<Rightarrow> (Normal, Reply ok_reply)
      | Psync _ _ \<Rightarrow> (Normal, StartReplica c)
      | Echo message \<Rightarrow> (Normal, Reply (BulkString message))
      | Ping message \<Rightarrow>
          (case message of
             Some m \<Rightarrow> (Normal, Reply (BulkString m))
           | None \<Rightarrow> (Normal, Reply (simple_string ''PONG'')))
      | Multi \<Rightarrow> (Transaction [], Reply ok_reply)
      | Exec \<Rightarrow> (Normal, Reply (simple_error ''ERR EXEC without MULTI''))
      | Discard \<Rightarrow> (Normal, Reply (simple_error ''ERR DISCARD without MULTI''))
      | ReplconfAck _ \<Rightarrow> (Normal, ExecuteNoReply c)
      | Subscribe _ \<Rightarrow> (Subscription, Execute c)
      | _ \<Rightarrow> (Normal, Execute c))"

definition run_transaction :: "command list \<Rightarrow> command \<Rightarrow> client_run_mode \<times> client_dispatch" where
  "run_transaction queue c =
     (case c of
        Discard \<Rightarrow> (Normal, Execute c)
      | Watch _ \<Rightarrow>
          (Transaction queue, Reply (simple_error ''ERR WATCH inside MULTI is not allowed''))
      | Exec \<Rightarrow> (Normal, Execute (InternalExecuteTx queue))
      | _ \<Rightarrow> (Transaction (queue @ [c]), Reply (simple_string ''QUEUED'')))"

definition run_subscription :: "command \<Rightarrow> client_run_mode \<times> client_dispatch" where
  "run_subscription c =
     (case c of
        Ping _ \<Rightarrow> (Subscription, Reply (Array [bulk_string ''pong'', bulk_string '''']))
      | Publish _ _ \<Rightarrow> (Subscription, Execute c)
      | Subscribe _ \<Rightarrow> (Subscription, Execute c)
      | Unsubscribe _ \<Rightarrow> (Subscription, Execute c)
      | _ \<Rightarrow> (Subscription, Reply (subscription_error c)))"

definition run :: "client_run_mode \<Rightarrow> bool \<Rightarrow> command \<Rightarrow> client_run_mode \<times> client_dispatch" where
  "run mode need_auth c =
     (case (need_auth, c) of
        (True, Auth username password) \<Rightarrow> (Normal, MustAuth username password)
      | (True, _) \<Rightarrow> (Normal, Reply no_auth_error)
      | (False, _) \<Rightarrow>
          (case mode of
             Normal \<Rightarrow> run_normal c
           | Transaction queue \<Rightarrow> run_transaction queue c
           | Subscription \<Rightarrow> run_subscription c))"

section \<open>Sequences of commands\<close>

text \<open>The commands of one connection, in order, once it is authenticated.\<close>

primrec run_all :: "client_run_mode \<Rightarrow> command list \<Rightarrow> client_run_mode \<times> client_dispatch list" where
  "run_all mode [] = (mode, [])"
| "run_all mode (c # cs) =
     (let (mode1, d) = run mode False c;
          (mode2, ds) = run_all mode1 cs
      in (mode2, d # ds))"

lemma run_all_append:
  "run_all mode (cs @ cs') =
     (let (mode1, ds) = run_all mode cs;
          (mode2, ds') = run_all mode1 cs'
      in (mode2, ds @ ds'))"
  by (induction cs arbitrary: mode) (auto simp: Let_def split: prod.splits)

definition ends_queue :: "command \<Rightarrow> bool" where
  "ends_queue c = (case c of Exec \<Rightarrow> True | Discard \<Rightarrow> True | _ \<Rightarrow> False)"

definition is_watch :: "command \<Rightarrow> bool" where
  "is_watch c = (case c of Watch _ \<Rightarrow> True | _ \<Rightarrow> False)"

definition queue_reply :: "command \<Rightarrow> client_dispatch" where
  "queue_reply c =
     (if is_watch c then Reply (simple_error ''ERR WATCH inside MULTI is not allowed'')
      else Reply (simple_string ''QUEUED''))"

lemma run_queued:
  "\<not> ends_queue c \<Longrightarrow>
     run (Transaction queue) False c = (Transaction (queue @ filter (\<lambda>c. \<not> is_watch c) [c]), queue_reply c)"
  by (cases c) (simp_all add: run_def run_transaction_def queue_reply_def ends_queue_def is_watch_def)

lemma run_all_queued:
  "list_all (\<lambda>c. \<not> ends_queue c) cs \<Longrightarrow> run_all (Transaction queue) cs =
     (Transaction (queue @ filter (\<lambda>c. \<not> is_watch c) cs), map queue_reply cs)"
  by (induction cs arbitrary: queue) (simp_all add: run_queued Let_def)

text \<open>
  C21. A transaction executes exactly what was queued: between \<open>MULTI\<close> and \<open>EXEC\<close> nothing goes to
  the store, every command is answered \<open>QUEUED\<close> (\<open>WATCH\<close> with an error), and \<open>EXEC\<close> sends the
  store the queued commands in order, once; \<open>DISCARD\<close> sends none of them. Either way the
  connection is back in its normal mode.
\<close>

theorem multi_queues_then_executes:
  assumes "list_all (\<lambda>c. \<not> ends_queue c) cs"
  shows "run_all Normal (Multi # cs @ [Exec]) =
      (Normal, Reply ok_reply # map queue_reply cs @ [Execute (InternalExecuteTx (filter (\<lambda>c. \<not> is_watch c) cs))])
    \<and> run_all Normal (Multi # cs @ [Discard]) = (Normal, Reply ok_reply # map queue_reply cs @ [Execute Discard])"
proof -
  have multi: "run Normal False Multi = (Transaction [], Reply ok_reply)"
    by (simp add: run_def run_normal_def)
  have ends: "run (Transaction q) False Exec = (Normal, Execute (InternalExecuteTx q))"
    "run (Transaction q) False Discard = (Normal, Execute Discard)" for q
    by (simp_all add: run_def run_transaction_def)
  show ?thesis
    using assms by (simp add: run_all_append run_all_queued multi ends Let_def)
qed

theorem multi_queues_then_executes_witness:
  "run_all Normal (Multi # [Get [1], Watch [[2]], Incr [3]] @ [Exec]) =
     (Normal, Reply ok_reply # map queue_reply [Get [1], Watch [[2]], Incr [3]]
        @ [Execute (InternalExecuteTx [Get [1], Incr [3]])])"
  using multi_queues_then_executes [of "[Get [1], Watch [[2]], Incr [3]]"]
  by (simp add: ends_queue_def is_watch_def)

text \<open>
  Subscribed connections: once in subscription mode, a connection stays there, and whatever
  it sends, only \<open>SUBSCRIBE\<close>, \<open>UNSUBSCRIBE\<close> and \<open>PUBLISH\<close> reach the store; \<open>PING\<close> is answered
  directly and everything else with an error that names the command.
\<close>

theorem subscription_mode_restricts:
  "fst (run_all Subscription cs) = Subscription
    \<and> (\<forall>d \<in> set (snd (run_all Subscription cs)).
        (case d of
           Execute c \<Rightarrow> c \<in> set cs \<and> name c \<in> {''subscribe'', ''unsubscribe'', ''publish''}
         | Reply r \<Rightarrow> r = Array [bulk_string ''pong'', bulk_string ''''] \<or> (\<exists>c \<in> set cs. r = subscription_error c)
         | _ \<Rightarrow> False))"
proof (induction cs)
  case (Cons c cs)
  obtain m ds where rest: "run_all Subscription cs = (m, ds)"
    by fastforce
  have "fst (run Subscription False c) = Subscription"
    by (cases c) (simp_all add: run_def run_subscription_def)
  moreover have "case snd (run Subscription False c) of
        Execute c' \<Rightarrow> c' = c \<and> name c \<in> {''subscribe'', ''unsubscribe'', ''publish''}
      | Reply r \<Rightarrow> r = Array [bulk_string ''pong'', bulk_string ''''] \<or> r = subscription_error c
      | _ \<Rightarrow> False"
    by (cases c) (simp_all add: run_def run_subscription_def)
  ultimately show ?case
    using Cons rest by (fastforce simp: Let_def split: prod.splits client_dispatch.splits)
qed simp

theorem subscription_mode_restricts_witness:
  "case snd (run_all Subscription [Get [1]]) of [Execute c] \<Rightarrow> False | _ \<Rightarrow> True"
  using subscription_mode_restricts [of "[Get [1]]"]
  by (auto simp: run_def run_subscription_def split: list.splits client_dispatch.splits)

end
