(* ===== verification/ClientTask.thy ===== *)
theory ClientTask
  imports Client StoreState Aof
begin

text \<open>
  \<open>handle_client\<close>: the task of a connection. It decodes what it reads, lets the mode of the
  connection decide (theory \<open>Client\<close>), talks to the store and writes replies. The answers
  of the store are an argument: \<open>None\<close> means that the store dropped the channel.
\<close>

datatype client_action =
    SendStore envelope
  | WriteResp resp

record client_task =
  task_id :: client_id
  task_mode :: client_run_mode
  task_need_auth :: bool

definition new_client :: "client_id \<Rightarrow> bool \<Rightarrow> client_task" where
  "new_client c need_auth = \<lparr>task_id = c, task_mode = Normal, task_need_auth = need_auth\<rparr>"

text \<open>Waiting for the answer: a dropped channel panics.\<close>

definition await :: "panic \<Rightarrow> resp option \<Rightarrow> resp outcome" where
  "await p answer = (case answer of Some r \<Rightarrow> Return r | None \<Rightarrow> Panic p)"

definition fullresync_reply :: resp where
  "fullresync_reply = simple_string ''FULLRESYNC 8371b4fb1155b71f4a04d3e1bc3e18c4a990aeeb 0''"

text \<open>The arms of the \<open>match\<close> on the dispatch; \<open>chan\<close> is the fresh oneshot channel.\<close>

definition perform ::
    "reply_channel \<Rightarrow> resp option \<Rightarrow> client_dispatch \<Rightarrow> client_task \<Rightarrow> (client_task \<times> client_action list) outcome" where
  "perform chan answer d t =
     (case d of
        Execute cmd \<Rightarrow>
          obind (await ExplicitPanic answer) (\<lambda>r.
            Return (t, [SendStore (WithReply (task_id t) cmd chan), WriteResp r]))
      | ExecuteNoReply cmd \<Rightarrow> Return (t, [SendStore (WithReply (task_id t) cmd chan)])
      | Reply r \<Rightarrow> Return (t, [WriteResp r])
      | StartReplica _ \<Rightarrow>
          obind (await UnwrapPanic answer) (\<lambda>db.
            Return (t, [SendStore (AddReplica (task_id t) chan), WriteResp fullresync_reply, WriteResp db]))
      | MustAuth username password \<Rightarrow>
          obind (await ExplicitPanic answer) (\<lambda>r.
            Return (case r of SimpleString _ \<Rightarrow> t\<lparr>task_need_auth := False\<rparr> | _ \<Rightarrow> t,
                    [SendStore (WithReply (task_id t) (Auth username password) chan), WriteResp r])))"

definition handle_command ::
    "reply_channel \<Rightarrow> resp option \<Rightarrow> command \<Rightarrow> client_task \<Rightarrow> (client_task \<times> client_action list) outcome" where
  "handle_command chan answer cmd t =
     (let (next_mode, d) = run (task_mode t) (task_need_auth t) cmd
      in perform chan answer d (t\<lparr>task_mode := next_mode\<rparr>))"

definition handle_input ::
    "reply_channel \<Rightarrow> resp option \<Rightarrow> resp \<Rightarrow> client_task \<Rightarrow> (client_task \<times> client_action list) outcome" where
  "handle_input chan answer input t =
     obind (from_resp input) (\<lambda>o_cmd.
     obind (unwrap o_cmd) (\<lambda>cmd. handle_command chan answer cmd t))"

text \<open>The inputs of one read, in order; \<open>talk i\<close> is the channel and the answer of the \<open>i\<close>-th.\<close>

primrec handle_inputs ::
    "(nat \<Rightarrow> reply_channel \<times> resp option) \<Rightarrow> nat \<Rightarrow> resp list \<Rightarrow> client_task \<Rightarrow>
     (client_task \<times> client_action list) outcome" where
  "handle_inputs talk i [] t = Return (t, [])"
| "handle_inputs talk i (r # rs) t =
     obind (handle_input (fst (talk i)) (snd (talk i)) r t) (\<lambda>(t, out).
     obind (handle_inputs talk (i + 1) rs t) (\<lambda>(t, out'). Return (t, out @ out')))"

definition handle_read ::
    "(nat \<Rightarrow> reply_channel \<times> resp option) \<Rightarrow> bytes \<Rightarrow> client_task \<Rightarrow>
     (client_task \<times> client_action list) outcome" where
  "handle_read talk buffer t = obind (parsed_resps buffer) (\<lambda>inputs. handle_inputs talk 0 inputs t)"

text \<open>A push of the store: a command for a replica (\<open>write_command_to_stream\<close>), or a message.\<close>

definition handle_push :: "store_push \<Rightarrow> resp outcome" where
  "handle_push p =
     (case p of
        Replicate cmd \<Rightarrow> obind (to_resp cmd) unwrap
      | Message r \<Rightarrow> Return r)"

end
