(* ===== verification/Connections.thy ===== *)
theory Connections
  imports System ClientTask
begin

text \<open>
  The connection tasks as clients of the store task: which modes and dispatches they reach, and that a
  connection that has to authenticate gets nothing but \<open>AUTH\<close> to the store.
\<close>

section \<open>One command\<close>

definition mode_ok :: "client_run_mode \<Rightarrow> bool" where
  "mode_ok m = (case m of Transaction queue \<Rightarrow> list_all decoded_ok queue | _ \<Rightarrow> True)"

definition dispatch_ok :: "client_dispatch \<Rightarrow> bool" where
  "dispatch_ok d =
     (case d of
        Execute c \<Rightarrow> executable c \<and> (\<forall>n. c \<noteq> ReplconfAck n)
      | ExecuteNoReply c \<Rightarrow> (\<exists>n. c = ReplconfAck n)
      | _ \<Rightarrow> True)"

lemma run_ok:
  assumes "run mode need_auth c = (mode', d)" and "decoded_ok c" and "mode_ok mode"
  shows "mode_ok mode' \<and> dispatch_ok d"
proof -
  have exec: "executable c"
    using assms(2) by (rule decoded_executable)
  show ?thesis
  proof (cases need_auth)
    case True
    with assms(1) show ?thesis
      by (cases c) (auto simp: run_def mode_ok_def dispatch_ok_def)
  next
    case False
    show ?thesis
    proof (cases mode)
      case Normal
      with assms(1) False exec show ?thesis
        by (cases c) (auto simp: run_def run_normal_def mode_ok_def dispatch_ok_def split: option.splits)
    next
      case (Transaction queue)
      with assms False exec show ?thesis
        by (cases c) (auto simp: run_def run_transaction_def mode_ok_def dispatch_ok_def executable_def)
    next
      case Subscription
      with assms(1) False exec show ?thesis
        by (cases c) (auto simp: run_def run_subscription_def mode_ok_def dispatch_ok_def)
    qed
  qed
qed

section \<open>Properties\<close>

definition only_auth :: "client_id \<Rightarrow> client_action list \<Rightarrow> bool" where
  "only_auth c out =
     list_all (\<lambda>a. case a of SendStore (WithReply x (Auth _ _) _) \<Rightarrow> x = c | SendStore _ \<Rightarrow> False | WriteResp _ \<Rightarrow> True) out"

definition gate_opened :: "client_id \<Rightarrow> client_action list \<Rightarrow> bool" where
  "gate_opened c out \<longleftrightarrow> (\<exists>closed u p chan s later.
     out = closed @ [SendStore (WithReply c (Auth u p) chan), WriteResp (SimpleString s)] @ later \<and> only_auth c closed)"

lemma only_auth_append [simp]: "only_auth c (out @ out') \<longleftrightarrow> only_auth c out \<and> only_auth c out'"
  by (simp add: only_auth_def)

lemma gate_opened_later: "gate_opened c out \<Longrightarrow> gate_opened c (out @ out')"
proof -
  assume "gate_opened c out"
  then obtain closed u p chan s later where
    "out @ out' = closed @ [SendStore (WithReply c (Auth u p) chan), WriteResp (SimpleString s)] @ (later @ out')"
    "only_auth c closed"
    by (auto simp: gate_opened_def)
  then show "gate_opened c (out @ out')"
    unfolding gate_opened_def by blast
qed

lemma gate_opened_after: "only_auth c out \<Longrightarrow> gate_opened c out' \<Longrightarrow> gate_opened c (out @ out')"
proof -
  assume "only_auth c out" and "gate_opened c out'"
  then obtain closed u p chan s later where
    "out @ out' = (out @ closed) @ [SendStore (WithReply c (Auth u p) chan), WriteResp (SimpleString s)] @ later"
    "only_auth c (out @ closed)"
    by (auto simp: gate_opened_def)
  then show "gate_opened c (out @ out')"
    unfolding gate_opened_def by blast
qed

lemma gate_input:
  assumes "handle_input chan answer input t = Return (t', out)" and "task_need_auth t"
  shows "task_id t' = task_id t \<and> (task_need_auth t' \<and> only_auth (task_id t) out \<or> gate_opened (task_id t) out)"
proof -
  from assms(1) obtain c where c: "handle_command chan answer c t = Return (t', out)"
    by (auto simp: handle_input_def unwrap_def split: option.splits)
  show ?thesis
  proof (cases "\<exists>u p. c = Auth u p")
    case True
    then obtain u p where [simp]: "c = Auth u p"
      by blast
    from c assms(2) obtain r where "answer = Some r"
      by (cases answer) (auto simp: handle_command_def run_def perform_def await_def)
    with c assms(2) have t': "t' = (case r of SimpleString _ \<Rightarrow> t\<lparr>task_mode := Normal, task_need_auth := False\<rparr> | _ \<Rightarrow> t\<lparr>task_mode := Normal\<rparr>)"
      and out: "out = [SendStore (WithReply (task_id t) (Auth u p) chan), WriteResp r]"
      by (auto simp: handle_command_def run_def perform_def await_def split: resp.splits)
    show ?thesis
    proof (cases "\<exists>s. r = SimpleString s")
      case True
      then obtain s where r: "r = SimpleString s"
        by blast
      have "gate_opened (task_id t) out"
        unfolding gate_opened_def
        by (intro exI [of _ "[]"] exI [of _ u] exI [of _ p] exI [of _ chan] exI [of _ s]) (simp add: out r only_auth_def)
      then show ?thesis
        by (simp add: t' r)
    next
      case False
      then show ?thesis
        using assms(2) by (cases r) (auto simp: t' out only_auth_def)
    qed
  next
    case False
    then have "run (task_mode t) True c = (Normal, Reply no_auth_error)"
      by (cases c) (auto simp: run_def)
    with c assms(2) show ?thesis
      by (auto simp: handle_command_def perform_def only_auth_def)
  qed
qed

text \<open>
  C17. The authentication gate: while a connection has to authenticate, its task posts nothing
  but \<open>AUTH\<close> to the store, whatever it is sent, and only a simple string as the answer to an
  \<open>AUTH\<close> opens the gate.
\<close>

theorem authentication_gate:
  assumes "handle_inputs talk i inputs t = Return (t', out)" and "task_need_auth t"
  shows "task_need_auth t' \<and> only_auth (task_id t) out \<or> gate_opened (task_id t) out"
  using assms
proof (induction inputs arbitrary: i t out)
  case Nil
  then show ?case
    by (simp add: only_auth_def)
next
  case (Cons input inputs)
  then obtain t1 out1 out2 where first: "handle_input (fst (talk i)) (snd (talk i)) input t = Return (t1, out1)"
    and rest: "handle_inputs talk (i + 1) inputs t1 = Return (t', out2)" and out: "out = out1 @ out2"
    by auto
  have head: "task_id t1 = task_id t"
      "task_need_auth t1 \<and> only_auth (task_id t) out1 \<or> gate_opened (task_id t) out1"
    using gate_input [OF first Cons.prems(2)] by simp_all
  from head(2) show ?case
  proof
    assume "task_need_auth t1 \<and> only_auth (task_id t) out1"
    then show ?thesis
      using Cons.IH [OF rest] head(1) gate_opened_after [of "task_id t" out1 out2] by (auto simp: out)
  next
    assume "gate_opened (task_id t) out1"
    then show ?thesis
      by (simp add: out gate_opened_later)
  qed
qed

theorem authentication_gate_witness:
  "\<exists>t' out. handle_inputs (\<lambda>_. (9, None)) 0 [Array [bulk_string ''INCR'', BulkString [107]]] (new_client 3 True) =
     Return (t', out) \<and> task_need_auth t' \<and> only_auth 3 out"
proof -
  have "handle_inputs (\<lambda>_. (9, None)) 0 [Array [bulk_string ''INCR'', BulkString [107]]] (new_client 3 True) =
    Return (new_client 3 True, [WriteResp no_auth_error])"
    by (simp add: new_client_def handle_input_def handle_command_def perform_def await_def run_def
      from_resp_arm to_ascii_uppercase_def ascii_upper_def byte_simps)
  from authentication_gate [OF this] this show ?thesis
    by (auto simp: gate_opened_def new_client_def Cons_eq_append_conv)
qed

end
