(* ===== verification/Network.thy ===== *)
theory Network
  imports Connections
begin

text \<open>
  The composed server: the store task with its queue of envelopes, the timers, and any number of
  connection tasks (\<open>handle_client\<close>) that come and go. A connection is a state machine here: it
  registers, reads, handles its inputs one by one, and waits on a oneshot channel while the
  other tasks go on. The parts meet in the queue of the store, the oneshot channels
  (\<open>mailbox\<close>, \<open>grants\<close>) and the channels of the pushes.
\<close>

section \<open>A connection as a state machine\<close>

text \<open>What the dispatch of a command posts, whether its answer is waited for, and what follows.\<close>

definition request :: "reply_channel \<Rightarrow> client_id \<Rightarrow> client_dispatch \<Rightarrow> envelope list" where
  "request chan c d =
     (case d of
        Execute cmd \<Rightarrow> [WithReply c cmd chan]
      | ExecuteNoReply cmd \<Rightarrow> [WithReply c cmd chan]
      | Reply _ \<Rightarrow> []
      | StartReplica _ \<Rightarrow> [AddReplica c chan]
      | MustAuth username password \<Rightarrow> [WithReply c (Auth username password) chan])"

definition waits :: "client_dispatch \<Rightarrow> bool" where
  "waits d = (case d of ExecuteNoReply _ \<Rightarrow> False | Reply _ \<Rightarrow> False | _ \<Rightarrow> True)"

definition resume :: "client_dispatch \<Rightarrow> resp \<Rightarrow> client_task \<Rightarrow> client_task \<times> resp list" where
  "resume d r t =
     (case d of
        StartReplica _ \<Rightarrow> (t, [fullresync_reply, r])
      | MustAuth _ _ \<Rightarrow> (case r of SimpleString _ \<Rightarrow> t\<lparr>task_need_auth := False\<rparr> | _ \<Rightarrow> t, [r])
      | _ \<Rightarrow> (t, [r]))"

datatype phase =
    Registering reply_channel
  | Listening
  | Awaiting reply_channel client_dispatch

text \<open>The task counts once the connection is registered; \<open>written\<close> is what went to the socket.\<close>

record connection =
  phase :: phase
  conn_task :: client_task
  inputs :: "resp list"
  written :: "resp list"

definition take_input :: "reply_channel \<Rightarrow> connection \<Rightarrow> (connection \<times> envelope list) outcome" where
  "take_input chan x =
     (case inputs x of
        [] \<Rightarrow> Return (x, [])
      | input # rest \<Rightarrow>
          obind (from_resp input) (\<lambda>o_cmd.
          obind (unwrap o_cmd) (\<lambda>cmd.
            let t = conn_task x;
                (mode, d) = run (task_mode t) (task_need_auth t) cmd
            in Return (x\<lparr>phase := if waits d then Awaiting chan d else Listening,
                         conn_task := t\<lparr>task_mode := mode\<rparr>, inputs := rest,
                         written := written x @ (case d of Reply r \<Rightarrow> [r] | _ \<Rightarrow> [])\<rparr>,
                       request chan (task_id t) d))))"

definition take_answer :: "client_dispatch \<Rightarrow> resp \<Rightarrow> connection \<Rightarrow> connection" where
  "take_answer d r x =
     (let (t, ws) = resume d r (conn_task x)
      in x\<lparr>phase := Listening, conn_task := t, written := written x @ ws\<rparr>)"

section \<open>The network\<close>

record network =
  backend :: server
  running :: "envelope multiset"
  queue :: "envelope list"
  mailbox :: "(reply_channel \<times> resp) multiset"
  grants :: "(reply_channel \<times> bool) multiset"
  pushes :: "(client_id \<times> store_push) list"
  connections :: "client_id \<Rightarrow> connection option"
  next_client :: client_id
  next_channel :: reply_channel

definition replies_of :: "effect list \<Rightarrow> (reply_channel \<times> resp) multiset" where
  "replies_of out = mset (concat (map (\<lambda>x. case x of SendReply ch r \<Rightarrow> [(ch, r)] | _ \<Rightarrow> []) out))"

definition grants_of :: "effect list \<Rightarrow> (reply_channel \<times> bool) multiset" where
  "grants_of out = mset (concat (map (\<lambda>x. case x of SendNeedAuth ch b \<Rightarrow> [(ch, b)] | _ \<Rightarrow> []) out))"

definition pushes_of :: "effect list \<Rightarrow> (client_id \<times> store_push) list" where
  "pushes_of out = concat (map (\<lambda>x. case x of
     SendPush c p \<Rightarrow> [(c, p)] | TrySendPush c p \<Rightarrow> [(c, p)] | _ \<Rightarrow> []) out)"

definition deliver :: "server \<Rightarrow> effect list \<Rightarrow> network \<Rightarrow> network" where
  "deliver sv out n = n\<lparr>backend := sv, running := running n + timers_of out,
     mailbox := mailbox n + replies_of out, grants := grants n + grants_of out,
     pushes := pushes n @ pushes_of out\<rparr>"

definition connect :: "client_id \<Rightarrow> connection \<Rightarrow> network \<Rightarrow> network" where
  "connect c x n = n\<lparr>connections := (connections n)(c \<mapsto> x)\<rparr>"

definition disconnect :: "client_id \<Rightarrow> network \<Rightarrow> network" where
  "disconnect c n = n\<lparr>connections := (connections n)(c := None)\<rparr>"

definition post :: "envelope list \<Rightarrow> network \<Rightarrow> network" where
  "post ms n = n\<lparr>queue := queue n @ ms\<rparr>"

definition new_connection :: "client_id \<Rightarrow> reply_channel \<Rightarrow> connection" where
  "new_connection c ch = \<lparr>phase = Registering ch, conn_task = new_client c False, inputs = [], written = []\<rparr>"

definition between_reads :: "network \<Rightarrow> client_id \<Rightarrow> connection \<Rightarrow> bool" where
  "between_reads n c x \<longleftrightarrow> connections n c = Some x \<and> phase x = Listening \<and> inputs x = []"

text \<open>
  The steps: a connection is accepted, registered, reads, handles an input, gets its answer, writes a
  push, is closed, or its task ends in a panic (bytes that do not parse or decode, a push that cannot be
  encoded or written), without a word to the store; a read has at most 1024 bytes. The replica's own
  task posts a command of its master; a timer posts its time-out; the store task handles the next envelope.
\<close>

inductive net_step :: "network \<Rightarrow> network \<Rightarrow> bool" where
  accept: "net_step n (post [RegisterClient (next_client n) (next_channel n)]
     (connect (next_client n) (new_connection (next_client n) (next_channel n))
       (n\<lparr>next_client := next_client n + 1, next_channel := next_channel n + 1\<rparr>)))"
| registered: "connections n c = Some x \<Longrightarrow> phase x = Registering ch \<Longrightarrow> (ch, b) \<in># grants n \<Longrightarrow>
     net_step n (connect c (x\<lparr>phase := Listening, conn_task := new_client c b\<rparr>)
       (n\<lparr>grants := grants n - {#(ch, b)#}\<rparr>))"
| read: "between_reads n c x \<Longrightarrow> length buffer \<le> 1024 \<Longrightarrow> parsed_resps buffer = Return rs \<Longrightarrow>
     net_step n (connect c (x\<lparr>inputs := rs\<rparr>) n)"
| input: "connections n c = Some x \<Longrightarrow> phase x = Listening \<Longrightarrow> inputs x \<noteq> [] \<Longrightarrow>
     take_input (next_channel n) x = Return (x', ms) \<Longrightarrow>
     net_step n (post ms (connect c x' (n\<lparr>next_channel := next_channel n + 1\<rparr>)))"
| answer: "connections n c = Some x \<Longrightarrow> phase x = Awaiting ch d \<Longrightarrow> (ch, r) \<in># mailbox n \<Longrightarrow>
     net_step n (connect c (take_answer d r x) (n\<lparr>mailbox := mailbox n - {#(ch, r)#}\<rparr>))"
| pushed: "between_reads n c x \<Longrightarrow> pushes n = ps @ (c, p) # qs \<Longrightarrow> c \<notin> fst ` set ps \<Longrightarrow> handle_push p = Return r \<Longrightarrow>
     net_step n (connect c (x\<lparr>written := written x @ [r]\<rparr>) (n\<lparr>pushes := ps @ qs\<rparr>))"
| close: "between_reads n c x \<Longrightarrow> net_step n (post [UnregisterClient c] (disconnect c n))"
| crash_read: "between_reads n c x \<Longrightarrow> length buffer \<le> 1024 \<Longrightarrow> parsed_resps buffer = Panic e \<Longrightarrow> net_step n (disconnect c n)"
| crash_input: "connections n c = Some x \<Longrightarrow> phase x = Listening \<Longrightarrow>
     take_input (next_channel n) x = Panic e \<Longrightarrow> net_step n (disconnect c n)"
| crash_push: "between_reads n c x \<Longrightarrow> pushes n = ps @ (c, p) # qs \<Longrightarrow> c \<notin> fst ` set ps \<Longrightarrow>
     net_step n (disconnect c n)"
| replicate: "decoded_ok cmd \<Longrightarrow> net_step n (post [ReplicateEnvelope cmd] n)"
| fire: "m \<in># running n \<Longrightarrow> net_step n (post [m] (n\<lparr>running := running n - {#m#}\<rparr>))"
| serve: "env_ok e \<Longrightarrow> queue n = m # ms \<Longrightarrow> handle e m (backend n) = Return (sv, out) \<Longrightarrow>
     net_step n (deliver sv out (n\<lparr>queue := ms\<rparr>))"

definition opened :: "network \<Rightarrow> bool" where
  "opened n \<longleftrightarrow> booted \<lparr>srv = backend n, timers = {#}\<rparr> \<and> running n = {#} \<and> queue n = [] \<and> mailbox n = {#}
     \<and> grants n = {#} \<and> pushes n = [] \<and> (\<forall>c. connections n c = None)"

inductive reachable :: "network \<Rightarrow> bool" where
  start: "opened n \<Longrightarrow> reachable n"
| onward: "reachable n \<Longrightarrow> net_step n n' \<Longrightarrow> reachable n'"

section \<open>The two descriptions of a connection agree\<close>

lemma perform_waits:
  "waits d \<Longrightarrow> perform chan (Some r) d t =
     (let (t', ws) = resume d r t in Return (t', map SendStore (request chan (task_id t) d) @ map WriteResp ws))"
  by (cases d) (simp_all add: waits_def perform_def await_def resume_def request_def)

lemma perform_goes_on:
  "\<not> waits d \<Longrightarrow> perform chan a d t = Return (t, map SendStore (request chan (task_id t) d)
     @ map WriteResp (case d of Reply r \<Rightarrow> [r] | _ \<Rightarrow> []))"
  by (cases d) (simp_all add: waits_def perform_def request_def)

section \<open>The store task and the timers as a system\<close>

text \<open>A time-out that has been posted and not yet handled counts as a timer of the system.\<close>

definition view :: "network \<Rightarrow> system" where
  "view n = \<lparr>srv = backend n, timers = running n + mset (filter is_timeout (queue n))\<rparr>"

text \<open>The channels on which an answer is still to come, or has come and is not read yet.\<close>

definition outstanding :: "network \<Rightarrow> reply_channel multiset" where
  "outstanding n = (\<Sum>m\<leftarrow>queue n. owed m) + pending (store (backend n)) + image_mset fst (mailbox n)"

definition channel_of :: "connection \<Rightarrow> reply_channel option" where
  "channel_of x = (case phase x of Registering ch \<Rightarrow> Some ch | Awaiting ch _ \<Rightarrow> Some ch | Listening \<Rightarrow> None)"

definition registering :: "network \<Rightarrow> client_id \<Rightarrow> reply_channel \<Rightarrow> bool" where
  "registering n c ch \<longleftrightarrow> RegisterClient c ch \<in> set (queue n) \<or> (\<exists>b. (ch, b) \<in># grants n)"

definition connection_ok :: "network \<Rightarrow> client_id \<Rightarrow> connection \<Rightarrow> bool" where
  "connection_ok n c x \<longleftrightarrow> task_id (conn_task x) = c \<and> c < next_client n \<and> mode_ok (task_mode (conn_task x))
     \<and> (case phase x of
          Registering ch \<Rightarrow> ch < next_channel n \<and> registering n c ch
        | Awaiting ch d \<Rightarrow> ch < next_channel n \<and> ch \<in># outstanding n
        | Listening \<Rightarrow> True)"

definition connections_ok :: "network \<Rightarrow> bool" where
  "connections_ok n \<longleftrightarrow> (\<forall>c x. connections n c = Some x \<longrightarrow> connection_ok n c x)
     \<and> (\<forall>c x c' x' ch. connections n c = Some x \<longrightarrow> connections n c' = Some x' \<longrightarrow>
          channel_of x = Some ch \<longrightarrow> channel_of x' = Some ch \<longrightarrow> c = c')"

definition queue_ok :: "network \<Rightarrow> bool" where
  "queue_ok n \<longleftrightarrow> (\<forall>m \<in> set (queue n). envelope_ok m)
     \<and> (\<forall>ch. count (outstanding n) ch \<le> (if ch < next_channel n then 1 else 0))"

definition network_ok :: "network \<Rightarrow> bool" where
  "network_ok n \<longleftrightarrow> system_ok (view n) \<and> queue_ok n \<and> connections_ok n"

lemmas network_updates = post_def connect_def disconnect_def deliver_def

section \<open>The steps of a connection\<close>

lemma owed_request:
  assumes "dispatch_ok d"
  shows "(\<Sum>m\<leftarrow>request chan c d. owed m) = (if waits d then {#chan#} else {#})"
proof (cases d)
  case (Execute cmd)
  with assms show ?thesis
    by (cases cmd) (simp_all add: request_def waits_def owed_def dispatch_ok_def)
qed (use assms in \<open>auto simp: request_def waits_def owed_def dispatch_ok_def\<close>)

lemma request_ok:
  assumes "dispatch_ok d" and "m \<in> set (request chan c d)"
  shows "envelope_ok m \<and> \<not> is_timeout m"
  using assms
  by (cases d) (auto simp: request_def dispatch_ok_def envelope_ok_def is_timeout_def executable_def decoded_ok_def)

lemma take_input_ok:
  assumes "take_input ch x = Return (x', ms)" and "mode_ok (task_mode (conn_task x))" and "inputs x \<noteq> []"
  shows "mode_ok (task_mode (conn_task x'))" "task_id (conn_task x') = task_id (conn_task x)"
    and "phase x' = Listening \<and> (\<Sum>m\<leftarrow>ms. owed m) = {#}
      \<or> (\<exists>d. phase x' = Awaiting ch d \<and> (\<Sum>m\<leftarrow>ms. owed m) = {#ch#})"
    and "m \<in> set ms \<Longrightarrow> envelope_ok m \<and> \<not> is_timeout m"
proof -
  from assms(3) obtain r rest where "inputs x = r # rest"
    by (cases "inputs x") auto
  with assms(1) obtain cmd where cmd: "from_resp r = decoded cmd"
    and ret: "(let (mode, d) = run (task_mode (conn_task x)) (task_need_auth (conn_task x)) cmd in
      (x\<lparr>phase := if waits d then Awaiting ch d else Listening, conn_task := (conn_task x)\<lparr>task_mode := mode\<rparr>,
         inputs := rest, written := written x @ (case d of Reply r \<Rightarrow> [r] | _ \<Rightarrow> [])\<rparr>,
       request ch (task_id (conn_task x)) d)) = (x', ms)"
    by (auto simp: take_input_def unwrap_def Let_def split_def split: option.splits)
  obtain mode d where run: "run (task_mode (conn_task x)) (task_need_auth (conn_task x)) cmd = (mode, d)"
    by (metis prod.exhaust)
  then have ok: "mode_ok mode" "dispatch_ok d"
    using run_ok [OF run from_resp_sound [OF cmd] assms(2)] by simp_all
  note x' = ret [unfolded run Let_def split_conv prod.inject]
  show "mode_ok (task_mode (conn_task x'))" "task_id (conn_task x') = task_id (conn_task x)"
    using x' ok by auto
  show "phase x' = Listening \<and> (\<Sum>m\<leftarrow>ms. owed m) = {#}
      \<or> (\<exists>d. phase x' = Awaiting ch d \<and> (\<Sum>m\<leftarrow>ms. owed m) = {#ch#})"
    using x' owed_request [OF ok(2), of ch "task_id (conn_task x)"] by (auto split: if_splits)
  show "m \<in> set ms \<Longrightarrow> envelope_ok m \<and> \<not> is_timeout m"
    using x' request_ok [OF ok(2)] by blast
qed

lemma take_answer_simps [simp]:
  "phase (take_answer d r x) = Listening"
  "task_id (conn_task (take_answer d r x)) = task_id (conn_task x)"
  "task_mode (conn_task (take_answer d r x)) = task_mode (conn_task x)"
  by (auto simp: take_answer_def resume_def split: client_dispatch.splits resp.splits)

section \<open>Every step of the network is a step of the system, or none\<close>

lemma view_serve:
  assumes "network_ok n" and "env_ok e" and "queue n = m # ms" and "handle e m (backend n) = Return (sv, out)"
  shows "\<exists>x. event_owes x = owed m \<and> step (view n) x out (view (deliver sv out (n\<lparr>queue := ms\<rparr>)))"
proof (cases "is_timeout m")
  case True
  have "step (view n) (Fired e m) out \<lparr>srv = sv, timers = timers (view n) - {#m#} + timers_of out\<rparr>"
    using True assms(2-4) by (intro step.fired) (simp_all add: view_def)
  then show ?thesis
    using True assms(3) by (intro exI [of _ "Fired e m"]) (simp add: view_def deliver_def event_owes_def ac_simps)
next
  case False
  have "step (view n) (Posted e m) out \<lparr>srv = sv, timers = timers (view n) + timers_of out\<rparr>"
    using False assms by (intro step.posted) (simp_all add: view_def network_ok_def queue_ok_def)
  then show ?thesis
    using False assms(3) by (intro exI [of _ "Posted e m"]) (simp add: view_def deliver_def event_owes_def ac_simps)
qed

lemma view_step:
  assumes "net_step n n'" and "network_ok n"
  shows "view n' = view n \<or> (\<exists>x out. step (view n) x out (view n'))"
  using assms(1)
proof cases
  case (input c x x' ms)
  then have "connection_ok n c x"
    using assms(2) by (simp add: network_ok_def connections_ok_def)
  then have "\<forall>m \<in> set ms. \<not> is_timeout m"
    using take_input_ok(4) [OF input(5) _ input(4)] by (auto simp: connection_ok_def)
  with input(1) show ?thesis
    by (simp add: view_def network_updates)
next
  case (fire m)
  have "\<forall>m \<in># timers (view n). is_timeout m"
    using assms(2) unfolding network_ok_def system_ok_def by blast
  moreover have "m \<in># timers (view n)"
    using fire(2) by (simp add: view_def)
  ultimately have "is_timeout m"
    by blast
  then have "running n - {#m#} + mset (filter is_timeout (queue n @ [m])) = running n + mset (filter is_timeout (queue n))"
    using fire(2) by (simp add: multi_member_split)
  moreover have "view n' = \<lparr>srv = backend n,
      timers = running n - {#m#} + mset (filter is_timeout (queue n @ [m]))\<rparr>"
    by (simp add: fire(1) view_def post_def)
  ultimately have "view n' = view n"
    by (simp only: view_def)
  then show ?thesis ..
next
  case (serve e m ms sv out)
  then show ?thesis
    using view_serve [OF assms(2)] by blast
qed (simp_all add: view_def network_updates is_timeout_def)

section \<open>The invariant\<close>

lemma connection_ok_mono:
  assumes "connection_ok n c x" and "next_client n \<le> next_client n'" and "next_channel n \<le> next_channel n'"
    and "\<And>ch. channel_of x = Some ch \<Longrightarrow> ch \<in># outstanding n \<Longrightarrow> ch \<in># outstanding n'"
    and "\<And>ch. channel_of x = Some ch \<Longrightarrow> registering n c ch \<Longrightarrow> registering n' c ch"
  shows "connection_ok n' c x"
  using assms by (auto simp: connection_ok_def channel_of_def split: phase.splits)

text \<open>One connection changes, the others keep theirs and use other channels.\<close>

lemma connections_ok_connect:
  assumes "connections_ok n" and "connection_ok n' c x" and "connections n' = (connections n)(c \<mapsto> x)"
    and "\<And>ch. channel_of x = Some ch \<Longrightarrow> ch = next_channel n"
    and "\<And>c' x'. c' \<noteq> c \<Longrightarrow> connections n c' = Some x' \<Longrightarrow> connection_ok n' c' x'"
  shows "connections_ok n'"
proof -
  have below: "ch < next_channel n" if "connections n c' = Some x'" "channel_of x' = Some ch" for c' x' ch
  proof -
    have "connection_ok n c' x'"
      using assms(1) that(1) by (simp add: connections_ok_def)
    then show ?thesis
      using that(2) by (cases "phase x'") (simp_all add: connection_ok_def channel_of_def)
  qed
  have "c1 = c2" if "connections n' c1 = Some x1" "connections n' c2 = Some x2"
    "channel_of x1 = Some ch" "channel_of x2 = Some ch" for c1 x1 c2 x2 ch
  proof (cases "c1 = c \<or> c2 = c")
    case True
    then show ?thesis
      using that assms(3,4) below by (fastforce split: if_splits)
  next
    case False
    then show ?thesis
      using that assms(1,3) unfolding connections_ok_def by (metis fun_upd_other)
  qed
  then show ?thesis
    using assms(2,3,5) unfolding connections_ok_def by (metis fun_upd_apply option.inject)
qed

lemma connections_ok_disconnect:
  assumes "connections_ok n" and "connections n' = (connections n)(c := None)"
    and "\<And>c' x'. c' \<noteq> c \<Longrightarrow> connections n c' = Some x' \<Longrightarrow> connection_ok n' c' x'"
  shows "connections_ok n'"
  using assms unfolding connections_ok_def by (auto split: if_splits)

lemma connections_ok_same:
  assumes "connections_ok n" and "connections n' = connections n"
    and "\<And>c x. connections n c = Some x \<Longrightarrow> connection_ok n' c x"
  shows "connections_ok n'"
  using assms unfolding connections_ok_def by metis

lemma outstanding_updates [simp]:
  "outstanding (post ms n) = outstanding n + (\<Sum>m\<leftarrow>ms. owed m)"
  "outstanding (connect c x n) = outstanding n"
  "outstanding (disconnect c n) = outstanding n"
  "outstanding (n\<lparr>grants := g\<rparr>) = outstanding n"
  "outstanding (n\<lparr>pushes := ps\<rparr>) = outstanding n"
  "outstanding (n\<lparr>running := ts\<rparr>) = outstanding n"
  "outstanding (n\<lparr>next_channel := ch\<rparr>) = outstanding n"
  "outstanding (n\<lparr>next_client := c\<rparr>) = outstanding n"
  by (simp_all add: outstanding_def network_updates ac_simps)

lemma fields [simp]:
  "connections (post ms n) = connections n" "connections (connect c x n) = (connections n)(c \<mapsto> x)"
  "connections (disconnect c n) = (connections n)(c := None)"
  "next_client (post ms n) = next_client n" "next_client (connect c x n) = next_client n"
  "next_client (disconnect c n) = next_client n"
  "next_channel (post ms n) = next_channel n" "next_channel (connect c x n) = next_channel n"
  "next_channel (disconnect c n) = next_channel n"
  "queue (post ms n) = queue n @ ms" "queue (connect c x n) = queue n" "queue (disconnect c n) = queue n"
  "grants (post ms n) = grants n" "grants (connect c x n) = grants n" "grants (disconnect c n) = grants n"
  by (simp_all add: network_updates)

lemma registering_updates [simp]:
  "registering n c ch \<Longrightarrow> registering (post ms n) c ch"
  "registering (connect c' x n) c ch \<longleftrightarrow> registering n c ch"
  "registering (disconnect c' n) c ch \<longleftrightarrow> registering n c ch"
  "registering (n\<lparr>pushes := ps\<rparr>) c ch \<longleftrightarrow> registering n c ch"
  "registering (n\<lparr>mailbox := mb\<rparr>) c ch \<longleftrightarrow> registering n c ch"
  "registering (n\<lparr>running := ts\<rparr>) c ch \<longleftrightarrow> registering n c ch"
  "registering (n\<lparr>next_channel := ch'\<rparr>) c ch \<longleftrightarrow> registering n c ch"
  "registering (n\<lparr>next_client := c'\<rparr>) c ch \<longleftrightarrow> registering n c ch"
  by (auto simp: registering_def network_updates)

text \<open>A step between reads, a push or a close leaves what is outstanding alone.\<close>

lemma conn_ok_at: "connections_ok n \<Longrightarrow> connections n c = Some x \<Longrightarrow> connection_ok n c x"
  by (simp add: connections_ok_def)

lemma channels_differ:
  "connections_ok n \<Longrightarrow> connections n c = Some x \<Longrightarrow> connections n c' = Some x' \<Longrightarrow> c' \<noteq> c \<Longrightarrow>
     channel_of x = Some ch \<Longrightarrow> channel_of x' \<noteq> Some ch"
  unfolding connections_ok_def by blast

lemma listening_ok [simp]:
  "phase x = Listening \<Longrightarrow> connection_ok n c x \<longleftrightarrow>
     task_id (conn_task x) = c \<and> c < next_client n \<and> mode_ok (task_mode (conn_task x))"
  "phase x = Listening \<Longrightarrow> channel_of x = None"
  by (simp_all add: connection_ok_def channel_of_def)

lemma answered_replies: "image_mset fst (replies_of out) = answered out"
  by (induction out) (auto simp: replies_of_def answered_def reply_of_def split: effect.splits)

lemma outstanding_serve:
  assumes "network_ok n" and "queue n = m # ms" and "handle e m (backend n) = Return (sv, out)"
  shows "outstanding (deliver sv out (n\<lparr>queue := ms\<rparr>)) = outstanding n"
proof -
  have "store_wf (store (backend n))"
    using assms(1) by (simp add: network_ok_def system_ok_def view_def)
  moreover have "envelope_ok m"
    using assms(1,2) by (simp add: network_ok_def queue_ok_def)
  ultimately have "answered out + pending (store sv) = pending (store (backend n)) + owed m"
    using serves_well_handle [OF _ _ assms(3)] by (simp add: serves_well_def)
  then show ?thesis
    by (simp add: outstanding_def deliver_def answered_replies assms(2) ac_simps)
qed

lemma registering_serve:
  assumes "registering n c ch" and "queue n = m # ms" and "handle e m (backend n) = Return (sv, out)"
  shows "registering (deliver sv out (n\<lparr>queue := ms\<rparr>)) c ch"
proof (cases "m = RegisterClient c ch")
  case True
  with assms(3) show ?thesis
    by (auto simp: handle_def register_client_def Let_def registering_def deliver_def grants_of_def)
next
  case False
  with assms(1,2) show ?thesis
    by (auto simp: registering_def deliver_def)
qed

lemma connections_ok_step:
  assumes "net_step n n'" and "network_ok n"
  shows "connections_ok n'"
proof -
  have conns: "connections_ok n"
    using assms(2) by (simp add: network_ok_def)
  note at = conn_ok_at [OF conns]
  have gone: "connections_ok (disconnect c n)" for c
    by (rule connections_ok_disconnect [OF conns]) (auto intro: connection_ok_mono [OF at])
  have posted: "connections_ok (post ms n)"
    if "connections_ok n" for ms n
    using that by (intro connections_ok_same [OF that]) (auto intro: connection_ok_mono [OF conn_ok_at])
  from assms(1) show ?thesis
  proof cases
    case accept
    let ?x = "new_connection (next_client n) (next_channel n)"
    have "connection_ok n' (next_client n) ?x"
      by (simp add: accept connection_ok_def new_connection_def new_client_def mode_ok_def registering_def)
    moreover have "channel_of ?x = Some (next_channel n)"
      by (simp add: new_connection_def channel_of_def)
    moreover have "connection_ok n' c' x'" if "connections n c' = Some x'" for c' x'
      using at [OF that] by (rule connection_ok_mono) (simp_all add: accept owed_def)
    ultimately show ?thesis
      by (intro connections_ok_connect [OF conns, of n' "next_client n" ?x]) (auto simp: accept)
  next
    case (registered c x ch b)
    have "connection_ok n' c' x'" if "c' \<noteq> c" "connections n c' = Some x'" for c' x'
    proof (rule connection_ok_mono [OF at [OF that(2)]])
      fix ch' assume "channel_of x' = Some ch'" and "registering n c' ch'"
      moreover have "channel_of x' \<noteq> Some ch"
        using registered(3) by (intro channels_differ [OF conns registered(2) that(2,1)]) (simp add: channel_of_def)
      ultimately show "registering n' c' ch'"
        by (auto simp: registered(1) registering_def connect_def in_remove_other)
    qed (simp_all add: registered(1))
    then show ?thesis
      using at [OF registered(2)]
      by (intro connections_ok_connect [OF conns, of n' c "x\<lparr>phase := Listening, conn_task := new_client c b\<rparr>"])
        (simp_all add: registered(1) new_client_def mode_ok_def connection_ok_def channel_of_def)
  next
    case (read c x buffer rs)
    have "connection_ok n' c' x'" if "connections n c' = Some x'" for c' x'
      using at [OF that] by (rule connection_ok_mono) (simp_all add: read)
    then show ?thesis
      using read at [of c x]
      by (intro connections_ok_connect [OF conns, of n' c "x\<lparr>inputs := rs\<rparr>"]) (auto simp: between_reads_def)
  next
    case (input c x x' ms)
    note ok = take_input_ok [OF input(5) _ input(4)]
    have x: "mode_ok (task_mode (conn_task x))" "task_id (conn_task x) = c" "c < next_client n"
      using at [OF input(2)] by (simp_all add: connection_ok_def)
    have "connection_ok n' c x'"
      using ok(1-3) [OF x(1)] x(2,3) by (auto simp: input(1) connection_ok_def)
    moreover have "channel_of x' = Some ch \<Longrightarrow> ch = next_channel n" for ch
      using ok(3) [OF x(1)] by (auto simp: channel_of_def)
    moreover have "connection_ok n' c' x''" if "connections n c' = Some x''" for c' x''
      using at [OF that] by (rule connection_ok_mono) (simp_all add: input)
    ultimately show ?thesis
      by (intro connections_ok_connect [OF conns, of n' c x']) (auto simp: input(1))
  next
    case (answer c x ch d r)
    have "connection_ok n' c' x'" if "c' \<noteq> c" "connections n c' = Some x'" for c' x'
    proof (rule connection_ok_mono [OF at [OF that(2)]])
      fix ch' assume "channel_of x' = Some ch'" and "ch' \<in># outstanding n"
      moreover have "channel_of x' \<noteq> Some ch"
        using answer(3) by (intro channels_differ [OF conns answer(2) that(2,1)]) (simp add: channel_of_def)
      ultimately show "ch' \<in># outstanding n'"
        using answer(4) by (auto simp: answer(1) outstanding_def connect_def image_mset_Diff in_remove_other)
    qed (simp_all add: answer(1))
    then show ?thesis
      using at [OF answer(2)]
      by (intro connections_ok_connect [OF conns, of n' c "take_answer d r x"])
        (simp_all add: answer(1) connection_ok_def channel_of_def)
  next
    case (pushed c x ps p qs r)
    have "connection_ok n' c' x'" if "connections n c' = Some x'" for c' x'
      using at [OF that] by (rule connection_ok_mono) (simp_all add: pushed)
    then show ?thesis
      using pushed at [of c x]
      by (intro connections_ok_connect [OF conns, of n' c "x\<lparr>written := written x @ [r]\<rparr>"]) (auto simp: between_reads_def)
  next
    case (serve e m ms sv out)
    have "connection_ok n' c' x'" if "connections n c' = Some x'" for c' x'
      using at [OF that]
      by (rule connection_ok_mono)
        (use outstanding_serve [OF assms(2) serve(3,4)] registering_serve [OF _ serve(3,4)] in
          \<open>simp_all add: serve(1) deliver_def\<close>)
    then show ?thesis
      by (intro connections_ok_same [OF conns]) (simp_all add: serve(1) deliver_def)
  next
    case (fire m)
    have "connections_ok (n\<lparr>running := running n - {#m#}\<rparr>)"
      by (rule connections_ok_same [OF conns]) (auto intro: connection_ok_mono [OF at])
    then show ?thesis
      by (simp only: fire(1) posted)
  qed (simp_all add: gone posted conns)
qed

lemma queue_ok_same:
  assumes "queue_ok n" and "outstanding n' = outstanding n" and "next_channel n \<le> next_channel n'"
    and "\<And>m. m \<in> set (queue n') \<Longrightarrow> envelope_ok m"
  shows "queue_ok n'"
proof -
  have "count (outstanding n) ch \<le> (if ch < next_channel n then 1 else 0)" for ch
    using assms(1) by (simp add: queue_ok_def)
  then have "count (outstanding n) ch \<le> (if ch < next_channel n' then 1 else 0)" for ch
    by (rule order_trans) (use assms(3) in auto)
  with assms(2,4) show ?thesis
    by (simp add: queue_ok_def)
qed

lemma envelope_ok_parties [simp]:
  "envelope_ok (RegisterClient c ch)" "envelope_ok (UnregisterClient c)"
  by (simp_all add: envelope_ok_def)

lemma queue_ok_step:
  assumes "net_step n n'" and "network_ok n"
  shows "queue_ok n'"
proof -
  have ok: "queue_ok n" and envs: "\<And>m. m \<in> set (queue n) \<Longrightarrow> envelope_ok m"
    using assms(2) by (simp_all add: network_ok_def queue_ok_def)
  note same = queue_ok_same [OF ok]
  from assms(1) show ?thesis
  proof cases
    case (input c x x' ms)
    have x: "mode_ok (task_mode (conn_task x))"
      using assms(2) input(2) by (simp add: network_ok_def connections_ok_def connection_ok_def)
    note taken = take_input_ok [OF input(5) x input(4)]
    have "count (\<Sum>m\<leftarrow>ms. owed m) ch \<le> (if ch = next_channel n then 1 else 0)" for ch
      using taken(3) by auto
    moreover have "count (outstanding n) ch \<le> (if ch < next_channel n then 1 else 0)" for ch
      using ok by (simp add: queue_ok_def)
    ultimately have "count (outstanding n') ch \<le> (if ch < Suc (next_channel n) then 1 else 0)" for ch
      using add_mono [of "count (outstanding n) ch" _ "count (\<Sum>m\<leftarrow>ms. owed m) ch"]
      by (fastforce simp: input(1) split: if_splits)
    then show ?thesis
      using envs taken(4) by (auto simp: queue_ok_def input(1))
  next
    case (answer c x ch d r)
    have "outstanding n' \<subseteq># outstanding n"
      by (simp add: answer(1) outstanding_def connect_def image_mset_Diff answer(4))
    from mset_subset_eq_count [OF this]
    have "count (outstanding n') ch \<le> (if ch < next_channel n then 1 else 0)" for ch
      by (rule order_trans) (use ok in \<open>simp add: queue_ok_def\<close>)
    then show ?thesis
      using envs by (simp add: queue_ok_def answer(1))
  next
    case (fire m)
    have "m \<in># timers (view n)"
      using fire(2) by (simp add: view_def)
    then have "is_timeout m"
      using assms(2) unfolding network_ok_def system_ok_def by blast
    then have "envelope_ok m" "owed m = {#}"
      by (cases m; simp add: is_timeout_def envelope_ok_def owed_def)+
    then show ?thesis
      by (intro same) (auto simp: fire(1) envs)
  next
    case (replicate cmd)
    then have "envelope_ok (ReplicateEnvelope cmd)"
      by (simp add: envelope_ok_def decoded_executable)
    then show ?thesis
      by (intro same) (auto simp: replicate(1) owed_def envs)
  next
    case (serve e m ms sv out)
    then show ?thesis
      by (intro same outstanding_serve [OF assms(2) serve(3,4), folded serve(1)]) (simp_all add: envs deliver_def)
  qed (auto intro!: same simp: owed_def envs)
qed

lemma network_ok_step:
  assumes "net_step n n'" and "network_ok n"
  shows "network_ok n'"
  using view_step [OF assms] step_ok(1) queue_ok_step [OF assms] connections_ok_step [OF assms] assms(2)
  unfolding network_ok_def by metis

lemma opened_ok: "opened n \<Longrightarrow> network_ok n"
  using booted_ok [of "\<lparr>srv = backend n, timers = {#}\<rparr>"] booted_wf(2) [of "\<lparr>srv = backend n, timers = {#}\<rparr>"]
  by (simp add: opened_def network_ok_def view_def queue_ok_def connections_ok_def outstanding_def)

lemma reachable_network_ok: "reachable n \<Longrightarrow> network_ok n"
  by (induction rule: reachable.induct) (auto intro: opened_ok network_ok_step)

lemma steps_snoc: "steps s xs outs s1 \<Longrightarrow> step s1 x out s' \<Longrightarrow> \<exists>xs outs. steps s xs outs s'"
  by (induction rule: steps.induct) (metis steps.simps)+

section \<open>An example run\<close>

text \<open>One client connects, is registered, sends \<open>INCR k\<close> and waits.\<close>

definition demo_input :: resp where
  "demo_input = Array [bulk_string ''INCR'', BulkString [107]]"

definition demo_network :: network where
  "demo_network = \<lparr>backend = srv demo_start, running = {#}, queue = [], mailbox = {#}, grants = {#}, pushes = [],
     connections = (\<lambda>_. None), next_client = 1, next_channel = 7\<rparr>"

definition demo_accepted :: network where
  "demo_accepted = demo_network\<lparr>queue := [RegisterClient 1 7], connections := [1 \<mapsto> new_connection 1 7],
     next_client := 2, next_channel := 8\<rparr>"

definition demo_listening :: connection where
  "demo_listening = \<lparr>phase = Listening, conn_task = new_client 1 False, inputs = [demo_input], written = []\<rparr>"

lemma demo_network_start: "reachable demo_network"
  using demo_booted by (intro reachable.start) (simp add: opened_def demo_network_def demo_start_def)

lemma demo_accept: "reachable demo_accepted"
  using reachable.onward [OF demo_network_start net_step.accept]
  by (simp add: demo_accepted_def demo_network_def network_updates numeral_2_eq_2)

lemma demo_input_taken:
  "take_input ch demo_listening = Return
     (demo_listening\<lparr>phase := Awaiting ch (Execute (Incr [107])), inputs := []\<rparr>, [WithReply 1 (Incr [107]) ch])"
  by (simp add: take_input_def demo_listening_def demo_input_def new_client_def run_def run_normal_def waits_def
      request_def from_resp_arm to_ascii_uppercase_def ascii_upper_def byte_simps)

lemma demo_waits:
  "\<exists>n x. reachable n \<and> connections n 1 = Some x \<and> phase x = Awaiting 8 (Execute (Incr [107]))"
proof -
  obtain sv where "handle plain_env (RegisterClient 1 7) (srv demo_start) = Return (sv, [SendNeedAuth 7 False])"
    by (simp add: handle_def register_client_def demo_start_def fresh_store_def hm_get_def byte_simps Let_def)
  then have "net_step demo_accepted (deliver sv [SendNeedAuth 7 False] (demo_accepted\<lparr>queue := []\<rparr>))"
    by (intro net_step.serve [OF plain_env_ok, where m = "RegisterClient 1 7"]) (simp_all add: demo_accepted_def demo_network_def)
  from reachable.onward [OF demo_accept this] obtain n1 where n1: "reachable n1" "connections n1 1 = Some (new_connection 1 7)"
    "(7, False) \<in># grants n1" "next_channel n1 = 8"
    by (force simp: demo_accepted_def demo_network_def deliver_def grants_of_def)
  from reachable.onward [OF n1(1) net_step.registered [OF n1(2) _ n1(3)]]
  obtain n2 where n2: "reachable n2" "connections n2 1 = Some (demo_listening\<lparr>inputs := []\<rparr>)" "next_channel n2 = 8"
    using n1(4) by (force simp: new_connection_def demo_listening_def)
  have "resp_ok demo_input"
    by (simp add: demo_input_def bulk_string_def)
  then have input: "parsed_resps (encode_resp demo_input) = Return [demo_input]"
    using parse_resp_loop_encoded [of "[demo_input]"] by (simp add: parsed_resps_def parse_resp_def)
  have "length (encode_resp demo_input) \<le> 1024"
    by (simp add: demo_input_def bulk_string_def nat_to_string.simps)
  from reachable.onward [OF n2(1) net_step.read [OF _ this input, of n2 1 "demo_listening\<lparr>inputs := []\<rparr>"]]
  obtain n3 where n3: "reachable n3" "connections n3 1 = Some demo_listening" "next_channel n3 = 8"
    using n2(2,3) by (force simp: between_reads_def demo_listening_def)
  from reachable.onward [OF n3(1) net_step.input [OF n3(2) _ _ demo_input_taken]] n3(3) show ?thesis
    by (force simp: demo_listening_def)
qed

section \<open>Properties\<close>

text \<open>
  C7. The network refines the system: whatever connections come, go, read, post and crash, and
  however the tasks are interleaved, the store task and the timers of a reachable network are
  in a state that the system of theory \<open>System\<close> reaches from its start; so the invariant of the
  store, the conservation of the replies and the absence of lost wake-ups hold in it.
\<close>

theorem network_refines_system:
  assumes "reachable n"
  shows "\<exists>s xs outs. booted s \<and> steps s xs outs (view n)"
  using assms
proof (induction rule: reachable.induct)
  case (start n)
  then have "view n = \<lparr>srv = backend n, timers = {#}\<rparr>"
    by (simp add: opened_def view_def)
  with start show ?case
    using steps.stop [of "view n"] unfolding opened_def by metis
next
  case (onward n n')
  then show ?case
    using view_step [OF onward.hyps(2) reachable_network_ok [OF onward.hyps(1)]] steps_snoc by metis
qed

theorem network_refines_system_witness: "\<exists>s xs outs. booted s \<and> steps s xs outs (view demo_accepted)"
  by (rule network_refines_system [OF demo_accept])

text \<open>A client that is blocked in the store: its timer is running, or its time-out is in the queue.\<close>

definition blocked_on :: "network \<Rightarrow> reply_channel \<Rightarrow> bool" where
  "blocked_on n ch \<longleftrightarrow>
     (\<exists>w ks ids. hm_get (stream_xread_waiters (store (backend n))) w = Some (ch, ks, ids)
        \<and> (TimeoutXread w \<in># running n \<or> TimeoutXread w \<in> set (queue n)))
     \<or> (\<exists>w ks. hm_get (list_blpop_waiters (store (backend n))) w = Some (ch, ks)
        \<and> (TimeoutBlpop w \<in># running n \<or> TimeoutBlpop w \<in> set (queue n)))
     \<or> (\<exists>w num target. hm_get (wait_waiters (store (backend n))) w = Some (ch, num, target)
        \<and> (WaitCommandTimeout w \<in># running n \<or> WaitCommandTimeout w \<in> set (queue n)))"

lemma mem_sum_mset_list: "ch \<in># (\<Sum>m\<leftarrow>ms. f m) \<longleftrightarrow> (\<exists>m \<in> set ms. ch \<in># f m)"
  by (induction ms) auto

lemma pending_blocked_on:
  assumes "network_ok n" and "ch \<in># pending (store (backend n))"
  shows "blocked_on n ch"
proof -
  let ?st = "store (backend n)"
  have wf: "store_wf ?st"
    using assms(1) by (simp add: network_ok_def system_ok_def view_def)
  have t: "timed (view n)"
    using assms(1) unfolding network_ok_def system_ok_def by blast
  note tables = xread_table.table_wf [OF wf] blpop_table.table_wf [OF wf] wait_table.table_wf [OF wf]
  from assms(2) consider (read) w ks ids where "(w, ch, ks, ids) \<in> set (stream_xread_waiters ?st)"
    | (pop) w ks where "(w, ch, ks) \<in> set (list_blpop_waiters ?st)"
    | (wait) w num target where "(w, ch, num, target) \<in> set (wait_waiters ?st)"
    unfolding pending_def by (auto; force)
  then show ?thesis
  proof cases
    case read
    then show ?thesis
      using t tables(1) by (fastforce simp: blocked_on_def timed_def view_def hm_get_iff_mem)
  next
    case pop
    then show ?thesis
      using t tables(2) by (fastforce simp: blocked_on_def timed_def view_def hm_get_iff_mem)
  next
    case wait
    then show ?thesis
      using t tables(3) by (fastforce simp: blocked_on_def timed_def view_def hm_get_iff_mem)
  qed
qed

text \<open>
  C6. No connection waits for an answer that is not coming: in every reachable state of the
  network, a connection that waits on a oneshot channel has its request still in the queue of
  the store task, or is blocked in the store with its timer running or its time-out posted, or
  its answer is there and it can go on. The channel is open exactly once in all these places, and
  no other connection waits on it, so that no answer is ever taken for another.
\<close>

theorem waiting_connection_is_served:
  assumes "reachable n" and "connections n c = Some x" and "phase x = Awaiting ch d"
  shows "((\<exists>m \<in> set (queue n). ch \<in># owed m) \<or> blocked_on n ch
      \<or> (\<exists>r. (ch, r) \<in># mailbox n
           \<and> net_step n (connect c (take_answer d r x) (n\<lparr>mailbox := mailbox n - {#(ch, r)#}\<rparr>))))
    \<and> count (outstanding n) ch = 1
    \<and> (\<forall>c' x'. connections n c' = Some x' \<and> channel_of x' = Some ch \<longrightarrow> c' = c)"
proof -
  have ok: "network_ok n"
    using assms(1) by (rule reachable_network_ok)
  then have conns: "connections_ok n"
    by (simp add: network_ok_def)
  have ch: "ch \<in># outstanding n"
    using conn_ok_at [OF conns assms(2)] assms(3) by (simp add: connection_ok_def)
  then have "0 < count (outstanding n) ch"
    by simp
  moreover have "count (outstanding n) ch \<le> 1"
    using ok by (auto simp: network_ok_def queue_ok_def intro: order_trans)
  ultimately have once: "count (outstanding n) ch = 1"
    by linarith
  have alone: "c' = c" if "connections n c' = Some x'" "channel_of x' = Some ch" for c' x'
    using channels_differ [OF conns assms(2) that(1), of ch] that(2) assms(3) by (auto simp: channel_of_def)
  from ch consider "\<exists>m \<in> set (queue n). ch \<in># owed m" | "ch \<in># pending (store (backend n))"
    | r where "(ch, r) \<in># mailbox n"
    by (auto simp: outstanding_def mem_sum_mset_list)
  then show ?thesis
  proof cases
    case 3
    then show ?thesis
      using net_step.answer [OF assms(2,3), of r] once alone by blast
  qed (use once alone pending_blocked_on [OF ok] in blast)+
qed

theorem waiting_connection_is_served_witness:
  "\<exists>n x. connections n 1 = Some x \<and> phase x = Awaiting 8 (Execute (Incr [107])) \<and> count (outstanding n) 8 = 1"
  using demo_waits waiting_connection_is_served by blast

text \<open>
  No connection is lost at its start: a connection that waits to be registered has its
  request in the queue of the store task, or may go on with what the store said of the
  authentication.
\<close>

theorem registration_is_answered:
  assumes "reachable n" and "connections n c = Some x" and "phase x = Registering ch"
  shows "RegisterClient c ch \<in> set (queue n)
    \<or> (\<exists>b n'. (ch, b) \<in># grants n \<and> net_step n n' \<and> connections n' c =
         Some (x\<lparr>phase := Listening, conn_task := new_client c b\<rparr>))"
proof -
  have "registering n c ch"
    using conn_ok_at [OF _ assms(2)] reachable_network_ok [OF assms(1)] assms(3)
    by (simp add: network_ok_def connection_ok_def)
  then show ?thesis
    using net_step.registered [OF assms(2,3)] unfolding registering_def by fastforce
qed

theorem registration_is_answered_witness:
  "RegisterClient 1 7 \<in> set (queue demo_accepted) \<or> (\<exists>b. (7, b) \<in># grants demo_accepted)"
  using registration_is_answered [OF demo_accept, of 1 "new_connection 1 7" 7]
  by (auto simp: demo_accepted_def new_connection_def)

text \<open>
  C16. The connection task and the store task fit together: whatever value a client sends, in whatever
  mode its connection is, each envelope that its task posts is one the store accepts (a
  decoded command, or a queue of decoded commands; never a time-out). The task goes on to wait exactly
  when the store owes it an answer for what it posted, and it waits on the channel of that answer.
\<close>

theorem connection_waits_for_what_is_owed:
  assumes "take_input ch x = Return (x', ms)" and "inputs x \<noteq> []" and "mode_ok (task_mode (conn_task x))"
  shows "mode_ok (task_mode (conn_task x')) \<and> list_all (\<lambda>m. envelope_ok m \<and> \<not> is_timeout m) ms
    \<and> (case phase x' of
         Awaiting ch' d \<Rightarrow> ch' = ch \<and> (\<Sum>m\<leftarrow>ms. owed m) = {#ch#}
       | Listening \<Rightarrow> (\<Sum>m\<leftarrow>ms. owed m) = {#}
       | Registering _ \<Rightarrow> False)"
  using take_input_ok [OF assms(1,3,2)] by (auto simp: list_all_iff)

theorem connection_waits_for_what_is_owed_witness:
  "\<exists>x' ms. take_input 8 demo_listening = Return (x', ms) \<and> phase x' = Awaiting 8 (Execute (Incr [107]))
     \<and> (\<Sum>m\<leftarrow>ms. owed m) = {#8#}"
proof -
  have "inputs demo_listening \<noteq> []" "mode_ok (task_mode (conn_task demo_listening))"
    by (simp_all add: demo_listening_def mode_ok_def new_client_def)
  from connection_waits_for_what_is_owed [OF demo_input_taken [of 8] this] demo_input_taken [of 8] show ?thesis
    by (simp add: demo_listening_def)
qed

text \<open>
  The two descriptions of a connection in this development agree: the machine that takes an input, perhaps waits,
  and takes the answer does what \<open>handle_input\<close> does in one go with that answer: the same task
  afterwards, the same envelopes posted, the same responses written, in the same order.
\<close>

lemma connection_steps_agree:
  assumes "take_input ch x = Return (x', ms)" and "inputs x = input # rest" and "phase x = Listening"
  shows "inputs x' = rest \<and> (case phase x' of
      Awaiting ch' d \<Rightarrow> ch' = ch \<and> written x' = written x \<and> (\<forall>r. \<exists>ws. written (take_answer d r x') = written x @ ws
        \<and> handle_input ch (Some r) input (conn_task x) =
            Return (conn_task (take_answer d r x'), map SendStore ms @ map WriteResp ws))
    | _ \<Rightarrow> (\<exists>ws. written x' = written x @ ws
        \<and> handle_input ch a input (conn_task x) = Return (conn_task x', map SendStore ms @ map WriteResp ws)))"
proof -
  from assms(1,2) obtain cmd where cmd: "from_resp input = decoded cmd"
    and ret: "(let (mode, d) = run (task_mode (conn_task x)) (task_need_auth (conn_task x)) cmd in
      (x\<lparr>phase := if waits d then Awaiting ch d else Listening, conn_task := (conn_task x)\<lparr>task_mode := mode\<rparr>,
         inputs := rest, written := written x @ (case d of Reply r \<Rightarrow> [r] | _ \<Rightarrow> [])\<rparr>,
       request ch (task_id (conn_task x)) d)) = (x', ms)"
    by (auto simp: take_input_def unwrap_def Let_def split_def split: option.splits)
  obtain mode d where run: "run (task_mode (conn_task x)) (task_need_auth (conn_task x)) cmd = (mode, d)"
    by (metis prod.exhaust)
  note x' = ret [unfolded run Let_def split_conv prod.inject]
  have big: "handle_input ch b input (conn_task x) = perform ch b d ((conn_task x)\<lparr>task_mode := mode\<rparr>)" for b
    by (simp add: handle_input_def cmd handle_command_def run unwrap_def)
  show ?thesis
  proof (cases "waits d")
    case True
    then have "(case d of Reply r \<Rightarrow> [r] | _ \<Rightarrow> []) = []"
      by (cases d) (simp_all add: waits_def)
    with True x' show ?thesis
      by (auto simp: big perform_waits take_answer_def split_def Let_def)
  next
    case False
    with x' show ?thesis
      by (auto simp: big perform_goes_on)
  qed
qed

end
