(* ===== verification/Cuts.thy ===== *)
theory Cuts
  imports Resp
begin

text \<open>
  Values that are cut: what the parser does with a proper prefix of an encoding. This is what a
  task meets when a read ends inside a value, since every read is parsed on its own.
\<close>

section \<open>Failing parsers\<close>

definition fails :: "'a presult \<Rightarrow> bool" where
  "fails r = (case r of POk _ _ \<Rightarrow> False | _ \<Rightarrow> True)"

lemma fails_simps [simp]:
  "\<not> fails (POk x rest)" "fails (PErr e)" "fails (PPanic p)" "fails PLoop"
  by (simp_all add: fails_def)

lemma fails_pbind: "fails r \<Longrightarrow> fails (pbind r f)"
  by (cases r) (simp_all add: pbind_def)

lemma fails_parse_resp_loop: "fails (parse_single_resp input) \<Longrightarrow> fails (parse_resp_loop acc input)"
  by (subst parse_resp_loop.simps) (auto simp: fails_def split: presult.splits)

lemma fails_elements: "fails (parse_single_resp input) \<Longrightarrow> fails (parse_elements l (Suc m) input)"
  by (auto simp: fails_def split: presult.splits)

section \<open>A length cut short\<close>

lemma fails_or2: "fails (p1 input) \<Longrightarrow> fails (p2 input) \<Longrightarrow> fails (or2 p1 p2 input)"
  by (auto simp: or2_def fails_def split: presult.splits)

lemma starts_with_take: "starts_with (take k xs) p \<Longrightarrow> starts_with xs p"
  by (metis append_assoc append_take_drop_id starts_with_iff)

lemma integer_cut:
  assumes "s = [] \<or> s = [13]"
  shows "fails (integer from_str (take k (nat_to_string n) @ s))
    \<or> (\<exists>v. integer from_str (take k (nat_to_string n) @ s) = POk v s)"
proof (cases "take k (nat_to_string n) = []")
  case True
  have "fails (number s)"
    using assms by (auto simp: number_def recognize_def and2_def opt_def sign_def or2_def byte_def digits_def
        take_while_def pbind_def is_ascii_digit_def)
  with True show ?thesis
    by (simp add: integer_def fails_pbind)
next
  case False
  have "list_all is_ascii_digit (take k (nat_to_string n))"
    using nat_to_string_digits [of n] by (auto simp: list_all_iff dest: in_set_takeD)
  then have "number (take k (nat_to_string n) @ s) = POk (take k (nat_to_string n)) s"
    using False assms by (intro number_digits) auto
  then show ?thesis
    by (auto simp: integer_def pbind_def fails_def split: option.splits presult.splits)
qed

lemma tag_crlf_cut: "s = [] \<or> s = [13] \<Longrightarrow> tag crlf s = PErr (NoTag crlf)"
  by (auto simp: tag_def)

lemma take_digits_crlf:
  assumes "k \<le> Suc (length (nat_to_string n))"
  obtains j s where "take k (nat_to_string n @ 13 # 10 # r) = take j (nat_to_string n) @ s" "s = [] \<or> s = [13]"
proof (cases "k \<le> length (nat_to_string n)")
  case True
  then show ?thesis
    using that [of k "[]"] by simp
next
  case False
  with assms have "k = Suc (length (nat_to_string n))"
    by simp
  then show ?thesis
    using that [of k "[13]"] by simp
qed

lemma parse_dollar_cut:
  "parse_single_resp (36 # take k (nat_to_string n @ r)) = or2 parse_bulk_string parse_rdb_file (36 # take k (nat_to_string n @ r))"
proof -
  have "\<not> starts_with (take k (nat_to_string n @ r)) (45 # p)" for p
    using starts_with_take nat_to_string_not_minus by blast
  then show ?thesis
    by (subst parse_single_resp.simps) (simp add: byte_simps del: take_append)
qed

text \<open>A file, or the part of a bulk string before its final CRLF, that is not complete.\<close>

lemma cut_file:
  assumes "0 < k" and "k < length (encode_resp (File f))" and "length f < 2 ^ 64"
  shows "fails (parse_single_resp (take k (encode_resp (File f))))"
proof -
  let ?ds = "nat_to_string (length f)"
  define j where "j = k - 1"
  have enc: "take k (encode_resp (File f)) = 36 # take j (?ds @ 13 # 10 # f)"
    using assms(1) by (cases k) (simp_all add: j_def byte_simps)
  have j: "j < length ?ds + 2 + length f"
    using assms(1,2) by (simp add: j_def byte_simps)
  have "fails (parse_bulk_string (36 # take j (?ds @ 13 # 10 # f))) \<and> fails (parse_rdb_file (36 # take j (?ds @ 13 # 10 # f)))"
  proof (cases "j \<le> Suc (length ?ds)")
    case True
    then obtain i s where "take j (?ds @ 13 # 10 # f) = take i ?ds @ s" "s = [] \<or> s = [13]"
      by (rule take_digits_crlf)
    with integer_cut [of s usize_from_str i "length f"] tag_crlf_cut [of s] show ?thesis
      by (auto simp: parse_bulk_string_def parse_rdb_file_def and2_def and3_def byte_Cons pbind_def fails_def
          split: presult.splits)
  next
    case False
    define i where "i = j - length ?ds - 2"
    have "take j (?ds @ 13 # 10 # f) = ?ds @ 13 # 10 # take i f" and "i < length f"
      using False j by (simp_all add: i_def take_Cons')
    then show ?thesis
      using assms(3) by (simp add: parse_bulk_string_def parse_rdb_file_def and2_def and3_def parse_simps take_bytes_def pbind_def)
  qed
  then show ?thesis
    unfolding enc parse_dollar_cut by (simp add: fails_or2)
qed

section \<open>A command cut short\<close>

text \<open>Without its last CRLF, or with only half of it, a bulk string is taken for a file.\<close>

lemma cut_bulk_string:
  assumes "0 < k" and "k < length (encode_resp (BulkString a))" and "length a < 2 ^ 64"
  shows "fails (parse_single_resp (take k (encode_resp (BulkString a))))
    \<or> (\<exists>s. (s = [] \<or> s = [13]) \<and> take k (encode_resp (BulkString a)) = encode_resp (File a) @ s
          \<and> parse_single_resp (take k (encode_resp (BulkString a))) = POk (Some (File a)) s)"
proof -
  let ?f = "encode_resp (File a)"
  have enc: "encode_resp (BulkString a) = ?f @ [13, 10]"
    by simp
  show ?thesis
  proof (cases "k < length ?f")
    case True
    then have "take k (encode_resp (BulkString a)) = take k ?f"
      by (simp only: enc take_append) simp
    with cut_file [OF assms(1) True assms(3)] show ?thesis
      by simp
  next
    case False
    define s where "s = take (k - length ?f) [13, 10 :: u8]"
    have "k - length ?f < 2"
      using assms(2) False by (simp only: enc length_append) simp
    then have s: "s = [] \<or> s = [13]"
      by (auto simp: s_def less_2_cases_iff)
    have "take k (encode_resp (BulkString a)) = ?f @ s"
      using False by (simp only: enc take_append s_def) simp
    moreover have "parse_single_resp (?f @ s) = POk (Some (File a)) s"
      using file_parsed [OF assms(3), of s] s by auto
    ultimately show ?thesis
      using s by metis
  qed
qed

definition frames :: "bytes list \<Rightarrow> bytes" where
  "frames args = concat (map (\<lambda>a. encode_resp (BulkString a)) args)"

lemma parse_leftover: "s = [] \<or> s = [13] \<Longrightarrow> fails (parse_elements l (Suc m) s)"
  by (auto simp: parse_single_resp.simps byte_simps)

lemma cut_elements:
  assumes "k < length (frames args)" and "list_all (\<lambda>a. length a < 2 ^ 64) args"
  shows "fails (parse_elements l (length args) (take k (frames args)))
    \<or> (\<exists>ini a s. args = ini @ [a] \<and> (s = [] \<or> s = [13]) \<and> take k (frames args) = frames ini @ encode_resp (File a) @ s
          \<and> parse_elements l (length args) (take k (frames args)) = POk (map BulkString ini @ [File a]) s)"
  using assms
proof (induction args arbitrary: k)
  case (Cons a args)
  let ?a = "encode_resp (BulkString a)"
  have frames: "frames (a # args) = ?a @ frames args"
    by (simp add: frames_def)
  have a: "length a < 2 ^ 64"
    using Cons.prems(2) by simp
  consider "k = 0" | "0 < k" "k < length ?a" | "length ?a \<le> k"
    by linarith
  then show ?case
  proof cases
    case 1
    then show ?thesis
      using parse_leftover [of "[]" l "length args"] by simp
  next
    case 2
    have tk: "take k (frames (a # args)) = take k ?a"
      using 2(2) by (simp only: frames take_append) simp
    from cut_bulk_string [OF 2 a] show ?thesis
    proof
      assume "fails (parse_single_resp (take k ?a))"
      then show ?thesis
        unfolding tk list.size(4) add_0_right add_Suc_right One_nat_def by (intro disjI1 fails_elements) simp
    next
      assume "\<exists>s. (s = [] \<or> s = [13]) \<and> take k ?a = encode_resp (File a) @ s
          \<and> parse_single_resp (take k ?a) = POk (Some (File a)) s"
      then obtain s where s: "s = [] \<or> s = [13]" "take k ?a = encode_resp (File a) @ s"
        "parse_single_resp (take k ?a) = POk (Some (File a)) s"
        by blast
      show ?thesis
      proof (cases args)
        case Nil
        have "parse_elements l (length (a # args)) (take k (frames (a # args))) = POk [File a] s"
          by (simp only: tk [unfolded Nil] Nil list.size add_0_right add_Suc_right One_nat_def parse_elements_simps s(3)) (simp add: pbind_def)
        with s(1,2) tk Nil show ?thesis
          by (intro disjI2 exI [of _ "[]"] exI [of _ a] exI [of _ s]) (simp add: frames_def)
      next
        case (Cons b bs)
        have "fails (parse_elements l (length args) s)"
          using parse_leftover [OF s(1)] by (simp only: Cons list.size add_0_right add_Suc_right One_nat_def)
        then have "fails (parse_elements l (Suc (length args)) (take k ?a))"
          by (simp only: parse_elements_simps s(3)) (simp add: fails_pbind)
        then show ?thesis
          by (simp add: tk)
      qed
    qed
  next
    case 3
    define j where "j = k - length ?a"
    have tk: "take k (frames (a # args)) = ?a @ take j (frames args)"
      using 3 by (simp only: frames take_append j_def) simp
    have j: "j < length (frames args)"
      using Cons.prems(1) 3 by (simp only: frames length_append j_def)
    have step: "parse_elements l (length (a # args)) (take k (frames (a # args))) =
        pbind (parse_elements l (length args) (take j (frames args))) (\<lambda>els rest. POk (BulkString a # els) rest)"
      using parse_encoded [of "BulkString a" "take j (frames args)"] a
      by (simp only: tk list.size add_0_right add_Suc_right One_nat_def parse_elements_simps resp_ok.simps) simp
    have "list_all (\<lambda>a. length a < 2 ^ 64) args"
      using Cons.prems(2) by simp
    from Cons.IH [OF j this] consider (broken) "fails (parse_elements l (length args) (take j (frames args)))"
      | (unended) ini b s where "args = ini @ [b]" "s = [] \<or> s = [13]" "take j (frames args) = frames ini @ encode_resp (File b) @ s"
        "parse_elements l (length args) (take j (frames args)) = POk (map BulkString ini @ [File b]) s"
      by blast
    then show ?thesis
    proof cases
      case broken
      then show ?thesis
        by (simp only: step fails_pbind simp_thms)
    next
      case unended
      have "take k (frames (a # args)) = frames (a # ini) @ encode_resp (File b) @ s"
        unfolding tk unended(3) by (simp add: frames_def)
      moreover have "parse_elements l (length (a # args)) (take k (frames (a # args))) = POk (map BulkString (a # ini) @ [File b]) s"
        unfolding step unended(4) by (simp add: pbind_def)
      moreover have "a # args = (a # ini) @ [b]"
        using unended(1) by simp
      ultimately show ?thesis
        using unended(2) by blast
    qed
  qed
qed (simp add: frames_def)

lemma cut_command:
  assumes "0 < k" and "k < length (encode_resp (Array (map BulkString args)))"
    and "list_all (\<lambda>a. length a < 2 ^ 64) args" and "length args < 2 ^ 64"
  shows "fails (parse_single_resp (take k (encode_resp (Array (map BulkString args)))))
    \<or> (\<exists>ini a s. args = ini @ [a] \<and> (s = [] \<or> s = [13])
          \<and> take k (encode_resp (Array (map BulkString args))) = encode_resp (Array (map BulkString ini @ [File a])) @ s
          \<and> parse_single_resp (take k (encode_resp (Array (map BulkString args)))) =
              POk (Some (Array (map BulkString ini @ [File a]))) s)"
proof -
  let ?ds = "nat_to_string (length args)"
  define j where "j = k - 1"
  have "encode_resp (Array (map BulkString args)) = 42 # ?ds @ 13 # 10 # frames args"
    by (simp add: byte_simps frames_def comp_def)
  then have enc: "take k (encode_resp (Array (map BulkString args))) = 42 # take j (?ds @ 13 # 10 # frames args)"
    and j: "j < length ?ds + 2 + length (frames args)"
    using assms(1,2) by (cases k; simp add: j_def)+
  show ?thesis
  proof (cases "j \<le> Suc (length ?ds)")
    case True
    then obtain i s where cut: "take j (?ds @ 13 # 10 # frames args) = take i ?ds @ s" "s = [] \<or> s = [13]"
      by (rule take_digits_crlf)
    have "\<not> starts_with (take j (?ds @ 13 # 10 # frames args)) (45 # p)" for p
      using starts_with_take nat_to_string_not_minus by blast
    then have "parse_single_resp (42 # take j (?ds @ 13 # 10 # frames args)) =
        (case parse_array_head (42 # take j (?ds @ 13 # 10 # frames args)) of
           POk l rest \<Rightarrow> pbind (parse_elements l l rest) (\<lambda>els rest. POk (Some (Array els)) rest)
         | PErr e \<Rightarrow> PErr e | PPanic p \<Rightarrow> PPanic p | PLoop \<Rightarrow> PLoop)"
      by (subst parse_single_resp.simps) (simp add: byte_simps del: take_append)
    moreover have "fails (parse_array_head (42 # take i ?ds @ s))"
      using integer_cut [OF cut(2), of usize_from_str i "length args"] tag_crlf_cut [OF cut(2)]
      by (auto simp: parse_array_head_def and3_def byte_Cons pbind_def fails_def split: presult.splits)
    ultimately show ?thesis
      unfolding enc cut(1) by (auto simp: fails_def split: presult.splits)
  next
    case False
    define i where "i = j - length ?ds - 2"
    have tk: "take j (?ds @ 13 # 10 # frames args) = ?ds @ 13 # 10 # take i (frames args)" and i: "i < length (frames args)"
      using False j by (simp_all add: i_def take_Cons')
    have step: "parse_single_resp (take k (encode_resp (Array (map BulkString args)))) =
        pbind (parse_elements (length args) (length args) (take i (frames args))) (\<lambda>els rest. POk (Some (Array els)) rest)"
      by (simp only: enc tk parse_array_encoded [OF assms(4)])
    from cut_elements [OF i assms(3), of "length args"]
    consider (broken) "fails (parse_elements (length args) (length args) (take i (frames args)))"
      | (unended) ini a s where "args = ini @ [a]" "s = [] \<or> s = [13]" "take i (frames args) = frames ini @ encode_resp (File a) @ s"
        "parse_elements (length args) (length args) (take i (frames args)) = POk (map BulkString ini @ [File a]) s"
      by blast
    then show ?thesis
    proof cases
      case broken
      then show ?thesis
        by (simp only: step fails_pbind simp_thms)
    next
      case cut: unended
      have "take k (encode_resp (Array (map BulkString args))) = encode_resp (Array (map BulkString ini @ [File a])) @ s"
        unfolding enc tk cut(3) by (simp add: cut(1) byte_simps frames_def comp_def)
      moreover have "parse_single_resp (take k (encode_resp (Array (map BulkString args)))) =
          POk (Some (Array (map BulkString ini @ [File a]))) s"
        unfolding step cut(4) by (simp add: pbind_def)
      ultimately show ?thesis
        using cut(1,2) by blast
    qed
  qed
qed

section \<open>A line cut short\<close>

lemma take_until_from_starts: "take_until_from d input i = POk a rest \<Longrightarrow> starts_with rest d \<and> input = a @ rest"
proof (induction d input i rule: take_until_from.induct)
  case (1 d input i)
  then show ?case
    by (subst (asm) (2) take_until_from.simps) (auto split: if_splits)
qed

lemma take_until_fails:
  assumes "10 \<notin> set input"
  shows "fails (take_until crlf input)"
proof (cases "take_until crlf input")
  case (POk a rest)
  then have "take_until_from crlf input 0 = POk a rest"
    by (simp add: take_until_def split: if_splits)
  from take_until_from_starts [OF this] obtain r where "input = a @ crlf @ r"
    by (auto simp: starts_with_iff)
  with assms show ?thesis
    by simp
qed simp_all

lemma cut_line:
  assumes "0 < k" and "k < length (encode_resp (SimpleString s))" and "10 \<notin> set s"
  shows "fails (parse_single_resp (take k (encode_resp (SimpleString s))))"
proof -
  define j where "j = k - 1"
  have enc: "take k (encode_resp (SimpleString s)) = 43 # take j (s @ [13])" and j: "j \<le> Suc (length s)"
    using assms(1,2) by (cases k; simp add: j_def byte_simps take_Cons')+
  have "10 \<notin> set (take j (s @ [13]))"
    using assms(3) in_set_takeD [of 10 j "s @ [13]"] by auto
  then have "fails (take_until crlf (take j (s @ [13])))"
    by (rule take_until_fails)
  then have "fails (parse_simple_string (43 # take j (s @ [13])))"
    by (simp add: parse_simple_string_def and3_def byte_Cons fails_pbind pbind_def fails_def split: presult.splits del: take_append)
  then show ?thesis
    unfolding enc by (subst parse_single_resp.simps) (simp add: byte_simps del: take_append)
qed

section \<open>A pipeline cut short\<close>

definition framed :: "resp \<Rightarrow> bool" where
  "framed r \<longleftrightarrow> resp_ok r \<and> (\<exists>args. r = Array (map BulkString args))"

abbreviation encodings :: "resp list \<Rightarrow> bytes" where
  "encodings rs \<equiv> concat (map encode_resp rs)"

text \<open>
  A read of \<open>k\<close> bytes that starts at a command and does not fail has seen whole commands, or lacks
  exactly the final CRLF of its last one, which it then takes for one with a file in it.
\<close>

lemma cut_commands [consumes 1, case_names failure whole unended]:
  assumes "list_all framed rs"
  obtains (failure) "fails (parse_resp_loop acc (take k (encodings rs)))"
    | (whole) m where "m \<le> length rs" "take k (encodings rs) = encodings (take m rs)"
        "parse_resp_loop acc (take k (encodings rs)) = POk (acc @ take m rs) []"
    | (unended) m ini a where "m < length rs" "rs ! m = Array (map BulkString (ini @ [a]))"
        "take k (encodings rs) = encodings (take m rs @ [Array (map BulkString ini @ [File a])])"
        "parse_resp_loop acc (take k (encodings rs)) = POk (acc @ take m rs @ [Array (map BulkString ini @ [File a])]) []"
proof -
  have nil: "parse_resp_loop acc [] = POk acc []" for acc
    using parse_resp_loop_encoded [of "[]" acc] by simp
  have "fails (parse_resp_loop acc (take k (encodings rs)))
    \<or> (\<exists>m \<le> length rs. take k (encodings rs) = encodings (take m rs)
        \<and> parse_resp_loop acc (take k (encodings rs)) = POk (acc @ take m rs) [])
    \<or> (\<exists>m ini a. m < length rs \<and> rs ! m = Array (map BulkString (ini @ [a]))
        \<and> take k (encodings rs) = encodings (take m rs @ [Array (map BulkString ini @ [File a])])
        \<and> parse_resp_loop acc (take k (encodings rs)) = POk (acc @ take m rs @ [Array (map BulkString ini @ [File a])]) [])"
    using assms
  proof (induction rs arbitrary: acc k)
    case (Cons r rs)
    obtain args where r: "r = Array (map BulkString args)" and ok: "resp_ok r"
      using Cons.prems by (auto simp: framed_def)
    consider "k = 0" | "0 < k" "k < length (encode_resp r)" | "length (encode_resp r) \<le> k"
      by linarith
    then show ?case
    proof cases
      case 1
      then show ?thesis
        using nil [of acc] by (intro disjI2 disjI1 exI [of _ 0]) simp
    next
      case 2
      have tk: "take k (encodings (r # rs)) = take k (encode_resp r)"
        using 2(2) by simp
      have sizes: "list_all (\<lambda>a. length a < 2 ^ 64) args" "length args < 2 ^ 64"
        using ok by (simp_all add: r list_all_iff)
      from cut_command [OF 2(1) 2(2) [unfolded r] sizes]
      consider (broken) "fails (parse_single_resp (take k (encode_resp r)))"
        | (rest) ini a s where "args = ini @ [a]" "s = [] \<or> s = [13]"
            "take k (encode_resp r) = encode_resp (Array (map BulkString ini @ [File a])) @ s"
            "parse_single_resp (take k (encode_resp r)) = POk (Some (Array (map BulkString ini @ [File a]))) s"
        unfolding r by blast
      then show ?thesis
      proof cases
        case broken
        then show ?thesis
          unfolding tk by (simp add: fails_parse_resp_loop)
      next
        case rest
        have loop: "parse_resp_loop acc (take k (encode_resp r)) = parse_resp_loop (acc @ [Array (map BulkString ini @ [File a])]) s"
          by (subst parse_resp_loop.simps) (simp add: rest(4) del: take_append)
        from rest(2) show ?thesis
        proof
          assume "s = [13]"
          then have "fails (parse_resp_loop acc (take k (encode_resp r)))"
            unfolding loop by (intro fails_parse_resp_loop) (simp add: parse_single_resp.simps byte_simps)
          then show ?thesis
            unfolding tk by simp
        next
          assume "s = []"
          with loop rest(3) nil show ?thesis
            unfolding tk
            by (intro disjI2 exI [of _ 0] exI [of _ ini] exI [of _ a]) (simp add: r rest(1) del: encode_resp.simps)
        qed
      qed
    next
      case 3
      define j where "j = k - length (encode_resp r)"
      have tk: "take k (encodings (r # rs)) = encode_resp r @ take j (encodings rs)"
        using 3 by (simp add: j_def)
      have loop: "parse_resp_loop acc (encode_resp r @ take j (encodings rs)) = parse_resp_loop (acc @ [r]) (take j (encodings rs))"
        by (subst parse_resp_loop.simps) (simp add: parse_encoded [OF ok])
      from Cons.IH [of "acc @ [r]" j] Cons.prems
      consider "fails (parse_resp_loop (acc @ [r]) (take j (encodings rs)))"
        | m where "m \<le> length rs" "take j (encodings rs) = encodings (take m rs)"
            "parse_resp_loop (acc @ [r]) (take j (encodings rs)) = POk ((acc @ [r]) @ take m rs) []"
        | m ini a where "m < length rs" "rs ! m = Array (map BulkString (ini @ [a]))"
            "take j (encodings rs) = encodings (take m rs @ [Array (map BulkString ini @ [File a])])"
            "parse_resp_loop (acc @ [r]) (take j (encodings rs)) =
               POk ((acc @ [r]) @ take m rs @ [Array (map BulkString ini @ [File a])]) []"
        by auto
      then show ?thesis
      proof cases
        case 1
        then show ?thesis
          unfolding tk loop by simp
      next
        case 2
        then show ?thesis
          unfolding tk loop by (intro disjI2 disjI1 exI [of _ "Suc m"]) simp
      next
        case 3
        then show ?thesis
          unfolding tk loop by (intro disjI2 exI [of _ "Suc m"] exI [of _ ini] exI [of _ a]) simp
      qed
    qed
  qed (simp add: nil)
  with that show ?thesis
    by blast
qed

text \<open>What is left of a command after such a read, its CRLF, starts no value.\<close>

lemma fails_leftover: "fails (parse_resp_loop acc (13 # input))"
  by (rule fails_parse_resp_loop) (simp add: parse_single_resp.simps byte_simps)

end
