(* ===== verification/Replica.thy ===== *)
theory Replica
  imports ClientTask Cuts
begin

text \<open>
  A server that is a replica: the handshake with the master and the stream of commands that
  follows, in reads of at most 1024 bytes, each parsed on its own. It counts the bytes of what it has
  processed and reports them when the master asks (\<open>REPLCONF GETACK\<close>). What arrives at the store of the
  replica, however the stream is cut into reads.
\<close>

section \<open>Handshake\<close>

definition handshake_commands :: "u16 \<Rightarrow> command list" where
  "handshake_commands own_port =
     [Ping None, ReplconfListeningPort own_port, ReplconfCapa [as_bytes ''psync2''], Psync (as_bytes ''?'') (- 1)]"

section \<open>Command stream\<close>

definition ack_reply :: "u64 \<Rightarrow> resp" where
  "ack_reply ack_bytes =
     Array [bulk_string ''REPLCONF'', bulk_string ''ACK'', BulkString (u64_to_string ack_bytes)]"

definition process_replica_message :: "resp \<Rightarrow> u64 \<Rightarrow> (envelope list \<times> resp option) outcome" where
  "process_replica_message input ack_bytes =
     obind (from_resp input) (\<lambda>o_cmd.
       case o_cmd of
         Some ReplconfGetAck \<Rightarrow> Return ([], Some (ack_reply ack_bytes))
       | Some cmd \<Rightarrow> Return ([ReplicateEnvelope cmd], None)
       | None \<Rightarrow> Return ([], None))"

definition replica_step :: "resp \<Rightarrow> u64 \<Rightarrow> (u64 \<times> client_action list) outcome" where
  "replica_step input ack_bytes =
     obind (process_replica_message input ack_bytes) (\<lambda>(envelopes, reply).
       Return (ack_bytes + word_of_nat (resp_len input),
               map SendStore envelopes
               @ (case reply of Some r \<Rightarrow> [WriteResp r] | None \<Rightarrow> [])))"

primrec run_replica :: "resp list \<Rightarrow> u64 \<Rightarrow> (u64 \<times> client_action list) outcome" where
  "run_replica [] ack_bytes = Return (ack_bytes, [])"
| "run_replica (input # inputs) ack_bytes =
     obind (replica_step input ack_bytes) (\<lambda>(ack_bytes, out).
     obind (run_replica inputs ack_bytes) (\<lambda>(ack_bytes, out'). Return (ack_bytes, out @ out')))"

section \<open>Reading\<close>

text \<open>
  A read takes what has arrived, \<open>n\<close> bytes of the stream, but never more than the 1024 bytes of its
  buffer, and parses these bytes alone. No bytes are \<open>None\<close>, which the callers ignore.
\<close>

definition read_resp_from_stream :: "nat \<Rightarrow> bytes \<Rightarrow> (resp list option \<times> bytes) outcome" where
  "read_resp_from_stream n stream =
     (let buffer = take (min n 1024) stream
      in if buffer = [] then Return (None, stream)
         else obind (parsed_resps buffer) (\<lambda>inputs. Return (Some inputs, drop (length buffer) stream)))"

text \<open>The main loop over the reads \<open>ns\<close>: each is processed before the next one.\<close>

primrec replica_reads :: "nat list \<Rightarrow> bytes \<Rightarrow> u64 \<Rightarrow> (u64 \<times> client_action list) outcome" where
  "replica_reads [] stream ack_bytes = Return (ack_bytes, [])"
| "replica_reads (n # ns) stream ack_bytes =
     obind (read_resp_from_stream n stream) (\<lambda>(new_inputs, stream).
     obind (run_replica (case new_inputs of Some inputs \<Rightarrow> inputs | None \<Rightarrow> []) ack_bytes) (\<lambda>(ack_bytes, out).
     obind (replica_reads ns stream ack_bytes) (\<lambda>(ack_bytes, out'). Return (ack_bytes, out @ out'))))"

text \<open>
  The handshake reads three replies and ignores what they are. Then it reads until it holds two
  values and drops them (the answer to \<open>PSYNC\<close> and the file); what is left, the reads to come and the
  rest of the stream are returned. \<open>None\<close> as a result means that it is still waiting.
\<close>

primrec read_replies :: "nat \<Rightarrow> nat list \<Rightarrow> bytes \<Rightarrow> (nat list \<times> bytes) option outcome" where
  "read_replies 0 ns stream = Return (Some (ns, stream))"
| "read_replies (Suc i) ns stream =
     (case ns of
        [] \<Rightarrow> Return None
      | n # ns \<Rightarrow> obind (read_resp_from_stream n stream) (\<lambda>(_, stream). read_replies i ns stream))"

primrec await_sync :: "nat list \<Rightarrow> resp list \<Rightarrow> bytes \<Rightarrow> (resp list \<times> nat list \<times> bytes) option outcome" where
  "await_sync [] queue stream = Return None"
| "await_sync (n # ns) queue stream =
     obind (read_resp_from_stream n stream) (\<lambda>(o_resp, stream).
       case o_resp of
         Some new_resp \<Rightarrow>
           if 2 \<le> length (queue @ new_resp) then Return (Some (drop 2 (queue @ new_resp), ns, stream))
           else await_sync ns (queue @ new_resp) stream
       | None \<Rightarrow> await_sync ns queue stream)"

definition replica_server_handshake :: "nat list \<Rightarrow> bytes \<Rightarrow> (resp list \<times> nat list \<times> bytes) option outcome" where
  "replica_server_handshake ns stream =
     obind (read_replies 3 ns stream) (\<lambda>o_rest.
       case o_rest of
         Some (ns, stream) \<Rightarrow> await_sync ns [] stream
       | None \<Rightarrow> Return None)"

definition run_replica_server :: "nat list \<Rightarrow> bytes \<Rightarrow> (u64 \<times> client_action list) option outcome" where
  "run_replica_server ns stream =
     obind (replica_server_handshake ns stream) (\<lambda>o_start.
       case o_start of
         Some (inputs_queue, ns, stream) \<Rightarrow>
           obind (run_replica inputs_queue 0) (\<lambda>(ack_bytes, out).
           obind (replica_reads ns stream ack_bytes) (\<lambda>(ack_bytes, out'). Return (Some (ack_bytes, out @ out'))))
       | None \<Rightarrow> Return None)"

section \<open>From the master to the replica\<close>

text \<open>The bytes the master writes for the pushes it sends to a replica, one after the other.\<close>

definition push_bytes :: "store_push list \<Rightarrow> bytes outcome" where
  "push_bytes ps = obind (omap handle_push ps) (\<lambda>rs. Return (encodings rs))"

definition replicated :: "command list \<Rightarrow> client_action list" where
  "replicated cmds = map (SendStore \<circ> ReplicateEnvelope) cmds"

text \<open>How much of a stream some reads take, and reads that end where the bytes of a push end.\<close>

definition bytes_read :: "nat list \<Rightarrow> bytes \<Rightarrow> nat" where
  "bytes_read ns stream = min (length stream) (\<Sum>n\<leftarrow>ns. min n 1024)"

definition reads_between_commands :: "nat list \<Rightarrow> store_push list \<Rightarrow> bool" where
  "reads_between_commands ns ps \<longleftrightarrow>
     (\<exists>groups bs. concat groups = ps \<and> omap push_bytes groups = Return bs
        \<and> list_all (\<lambda>b. length b \<le> 1024) bs \<and> ns = map length bs)"

lemma read_nothing [simp]: "take (min n 1024) stream = [] \<Longrightarrow> read_resp_from_stream n stream = Return (None, stream)"
  by (simp add: read_resp_from_stream_def Let_def)

lemma parsed_encodings: "list_all resp_ok rs \<Longrightarrow> parsed_resps (encodings rs) = Return rs"
  by (simp add: parsed_resps_def parse_resp_def parse_resp_loop_encoded)

lemma parsed_resps_fails: "fails (parse_resp_loop [] b) \<Longrightarrow> \<exists>e. parsed_resps b = Panic e"
  by (auto simp: parsed_resps_def parse_resp_def fails_def split: presult.splits)

text \<open>A read of exactly the bytes of some values, at most 1024 of them.\<close>

lemma read_encodings:
  assumes "list_all resp_ok rs" and "length (encodings rs) \<le> 1024"
  shows "\<exists>new. read_resp_from_stream (length (encodings rs)) (encodings rs @ stream) = Return (new, stream)
    \<and> (case new of Some inputs \<Rightarrow> inputs | None \<Rightarrow> []) = rs"
proof (cases rs)
  case Nil
  then show ?thesis
    by simp
next
  case (Cons r rs')
  then have "encodings rs \<noteq> []"
    by (cases r) (simp_all add: byte_simps)
  then have "read_resp_from_stream (length (encodings rs)) (encodings rs @ stream) = Return (Some rs, stream)"
    using assms(2) parsed_encodings [OF assms(1)] by (simp add: read_resp_from_stream_def Let_def min_def)
  then show ?thesis
    by simp
qed

lemma run_replica_append:
  "run_replica (rs @ rs') offset =
     obind (run_replica rs offset) (\<lambda>(offset, out).
     obind (run_replica rs' offset) (\<lambda>(offset, out'). Return (offset, out @ out')))"
proof (induction rs arbitrary: offset)
  case Nil
  show ?case
    by (cases "run_replica rs' offset") auto
qed (simp add: obind_assoc split_def)

lemma replica_reads_groups:
  assumes "list_all (\<lambda>g. list_all resp_ok g \<and> length (encodings g) \<le> 1024) groups"
  shows "replica_reads (map (length \<circ> encodings) groups) (concat (map encodings groups) @ later) offset =
    run_replica (concat groups) offset"
  using assms
proof (induction groups arbitrary: offset)
  case (Cons g groups)
  obtain new where "read_resp_from_stream (length (encodings g)) (encodings g @ concat (map encodings groups) @ later) =
      Return (new, concat (map encodings groups) @ later)" "(case new of Some inputs \<Rightarrow> inputs | None \<Rightarrow> []) = g"
    using read_encodings [of g] Cons.prems by fastforce
  then show ?case
    using Cons.IH Cons.prems by (simp add: run_replica_append comp_def)
qed simp

section \<open>Commands that travel\<close>

text \<open>A command and the value it is sent as. Only \<open>SET\<close> commands are sent to replicas, apart from \<open>GETACK\<close>.\<close>

definition sent_as :: "command \<Rightarrow> resp \<Rightarrow> bool" where
  "sent_as cmd r \<longleftrightarrow> handle_push (Replicate cmd) = Return r \<and> framed r \<and> from_resp r = decoded cmd \<and> cmd \<noteq> ReplconfGetAck"

definition travelling_set :: "command \<Rightarrow> bool" where
  "travelling_set cmd \<longleftrightarrow> travels cmd \<and> (case cmd of Set _ _ _ _ \<Rightarrow> True | _ \<Rightarrow> False)"

lemma travelling_set_sent:
  assumes "travelling_set cmd"
  obtains r where "sent_as cmd r"
proof -
  from assms obtain k v ex px where cmd: "cmd = Set k v ex px" and "travels cmd"
    by (auto simp: travelling_set_def split: command.splits)
  then obtain r where r: "to_resp cmd = Return (Some r)" "from_resp r = decoded cmd"
    by (auto simp: travels_def elim: wire_roundtrip)
  then have "\<exists>args. r = Array (map BulkString args)"
    by (cases ex; cases px) (auto simp: cmd to_resp_def key_to_str_def from_utf8_def expiry_args_def bulk_string_def
        Cons_eq_map_conv split: if_splits)
  with r \<open>travels cmd\<close> show ?thesis
    by (intro that [of r]) (simp add: sent_as_def handle_push_def framed_def travels_def cmd)
qed

lemma travelling_sets_sent:
  assumes "list_all travelling_set cmds"
  obtains rs where "list_all2 sent_as cmds rs"
  using assms
proof (induction cmds arbitrary: thesis)
  case (Cons cmd cmds)
  then show ?case
    by (metis list_all2_Cons list.pred_inject(2) travelling_set_sent)
qed simp

lemma sent_pushes: "list_all2 sent_as cmds rs \<Longrightarrow> omap handle_push (map Replicate cmds) = Return rs"
  by (induction rule: list_all2_induct) (simp_all add: sent_as_def)

lemma sent_push_bytes: "list_all2 sent_as cmds rs \<Longrightarrow> push_bytes (map Replicate cmds) = Return (encodings rs)"
  by (simp add: push_bytes_def sent_pushes)

lemma sent_framed: "list_all2 sent_as cmds rs \<Longrightarrow> list_all framed rs"
  by (induction rule: list_all2_induct) (simp_all add: sent_as_def)

lemma framed_ok: "list_all framed rs \<Longrightarrow> list_all resp_ok rs"
  by (auto simp: list_all_iff framed_def)

lemma run_replica_sent:
  "list_all2 sent_as cmds rs \<Longrightarrow>
     run_replica rs offset = Return (offset + word_of_nat (length (encodings rs)), replicated cmds)"
proof (induction cmds rs arbitrary: offset rule: list_all2_induct)
  case (Cons cmd cmds r rs)
  then show ?case
    by (cases cmd) (simp_all add: sent_as_def replicated_def replica_step_def process_replica_message_def
        length_encode_resp [symmetric] ac_simps)
qed (simp add: replicated_def)

text \<open>
  A \<open>SET\<close> read without its final CRLF: the value without expiry is taken from the file all the same, an
  expiry is not.
\<close>

lemma run_replica_unended:
  assumes "sent_as cmd (Array (map BulkString (ini @ [a])))" and "travelling_set cmd"
  shows "(\<exists>e. run_replica [Array (map BulkString ini @ [File a])] offset = Panic e)
    \<or> run_replica [Array (map BulkString ini @ [File a])] offset =
        Return (offset + word_of_nat (length (encode_resp (Array (map BulkString ini @ [File a])))), replicated [cmd])"
proof -
  from assms(2) obtain k v ex px where cmd: "cmd = Set k v ex px"
    by (auto simp: travelling_set_def split: command.splits)
  then have r: "to_resp cmd = Return (Some (Array (map BulkString (ini @ [a]))))"
    using assms(1) by (cases "to_resp cmd") (auto simp: sent_as_def handle_push_def unwrap_def split: option.splits)
  have wire: "wire_ok cmd"
    using assms(2) by (simp add: travelling_set_def travels_def)
  let ?u = "Array (map BulkString ini @ [File a])"
  have "from_resp ?u = decoded cmd \<or> (\<exists>e. from_resp ?u = Panic e)"
  proof (cases "ex = None \<and> px = None")
    case True
    then have "[BulkString (as_bytes ''SET''), BulkString k, BulkString v] = map BulkString ini @ [BulkString a]"
      using r by (auto simp: cmd to_resp_def key_to_str_def from_utf8_def expiry_args_def bulk_string_def split: if_splits)
    then have "ini = [as_bytes ''SET'', k]" "a = v"
      by (auto simp: append_eq_Cons_conv map_eq_Cons_conv)
    then show ?thesis
      using True by (simp add: cmd from_resp_arm set_from_resp_def)
  next
    case False
    then obtain o_name n where "[BulkString (as_bytes ''SET''), BulkString k, BulkString v, BulkString o_name, BulkString n] =
        map BulkString ini @ [BulkString a]"
      using r wire by (auto simp: cmd to_resp_def key_to_str_def from_utf8_def expiry_args_def bulk_string_def wire_ok_def
          split: if_splits option.splits)
    then have "ini = [as_bytes ''SET'', k, v, o_name]"
      by (auto simp: append_eq_Cons_conv map_eq_Cons_conv)
    then show ?thesis
      by (simp add: cmd from_resp_arm set_from_resp_def)
  qed
  then show ?thesis
    by (elim disjE exE) (simp_all add: replica_step_def process_replica_message_def cmd replicated_def length_encode_resp [symmetric]
        del: encode_resp.simps resp_len.simps)
qed

section \<open>Any reads\<close>

lemma bytes_read_Nil [simp]: "bytes_read [] stream = 0"
  by (simp add: bytes_read_def)

lemma bytes_read_Cons [simp]:
  "bytes_read (n # ns) stream = length (take (min n 1024) stream) + bytes_read ns (drop (min n 1024) stream)"
  by (auto simp: bytes_read_def)

lemma replica_reads_Cons:
  assumes "take (min n 1024) stream \<noteq> []"
  shows "replica_reads (n # ns) stream offset =
    obind (parsed_resps (take (min n 1024) stream)) (\<lambda>inputs.
    obind (run_replica inputs offset) (\<lambda>(offset, out).
    obind (replica_reads ns (drop (min n 1024) stream) offset) (\<lambda>(offset, out'). Return (offset, out @ out'))))"
proof -
  have "drop (length (take (min n 1024) stream)) stream = drop (min n 1024) stream"
    by (metis append_eq_conv_conj append_take_drop_id)
  with assms show ?thesis
    by (simp only: replica_reads.simps read_resp_from_stream_def Let_def if_False) (simp add: obind_assoc)
qed

lemma replica_reads_nothing:
  assumes "take (min n 1024) stream = []"
  shows "replica_reads (n # ns) stream offset = replica_reads ns stream offset"
    and "bytes_read (n # ns) stream = bytes_read ns stream"
proof -
  have "drop (min n 1024) stream = stream"
    using assms by auto
  with assms show "bytes_read (n # ns) stream = bytes_read ns stream"
    by (simp only: bytes_read_Cons) simp
  show "replica_reads (n # ns) stream offset = replica_reads ns stream offset"
    using assms by (cases "replica_reads ns stream offset") auto
qed

lemma reads_leftover:
  "(\<exists>e. replica_reads ns (13 # stream) offset = Panic e)
   \<or> replica_reads ns (13 # stream) offset = Return (offset, []) \<and> bytes_read ns (13 # stream) = 0"
proof (induction ns)
  case (Cons n ns)
  show ?case
  proof (cases "take (min n 1024) (13 # stream) = []")
    case True
    from Cons show ?thesis
      unfolding replica_reads_nothing [OF True] .
  next
    case False
    then obtain r where r: "take (min n 1024) (13 # stream) = 13 # r"
      by (cases "min n 1024") auto
    obtain e where "parsed_resps (13 # r) = Panic e"
      using parsed_resps_fails [OF fails_leftover] by blast
    then show ?thesis
      unfolding replica_reads_Cons [OF False] r by simp
  qed
qed simp

definition arrived :: "nat \<Rightarrow> bytes \<Rightarrow> bool" where
  "arrived n b \<longleftrightarrow> n \<le> length b \<and> length b \<le> n + 2"

lemma reads_sent:
  assumes "list_all2 sent_as cmds rs" and "list_all travelling_set cmds"
  shows "(\<exists>e. replica_reads ns (encodings rs) offset = Panic e)
    \<or> (\<exists>m. replica_reads ns (encodings rs) offset =
          Return (offset + word_of_nat (bytes_read ns (encodings rs)), replicated (take m cmds))
        \<and> arrived (bytes_read ns (encodings rs)) (encodings (take m rs)))"
  using assms
proof (induction ns arbitrary: cmds rs offset)
  case Nil
  then show ?case
    by (intro disjI2 exI [of _ 0]) (simp add: replicated_def arrived_def)
next
  case (Cons n ns)
  define k where "k = min n 1024"
  show ?case
  proof (cases "take k (encodings rs) = []")
    case True
    from Cons.IH [OF Cons.prems] show ?thesis
      unfolding replica_reads_nothing [OF True [unfolded k_def]] .
  next
    case False
    note step = replica_reads_Cons [OF False [unfolded k_def], folded k_def]
    from sent_framed [OF Cons.prems(1)] show ?thesis
    proof (cases rule: cut_commands [where acc = "[]" and k = k])
      case failure
      then obtain e where "parsed_resps (take k (encodings rs)) = Panic e"
        using parsed_resps_fails by blast
      then show ?thesis
        unfolding step by simp
    next
      case (whole m)
      define off where "off = offset + word_of_nat (length (encodings (take m rs)))"
      have parsed: "parsed_resps (take k (encodings rs)) = Return (take m rs)"
        using whole(3) by (simp add: parsed_resps_def parse_resp_def)
      have rest: "drop k (encodings rs) = encodings (drop m rs)"
        using whole(2) append_take_drop_id [of k "encodings rs"] append_take_drop_id [of m rs]
        by (metis concat_append map_append same_append_eq)
      have head: "list_all2 sent_as (take m cmds) (take m rs)" and tail: "list_all2 sent_as (drop m cmds) (drop m rs)"
        using Cons.prems(1) by (simp_all add: list_all2_takeI list_all2_dropI)
      have run: "run_replica (take m rs) offset = Return (off, replicated (take m cmds))"
        unfolding off_def by (rule run_replica_sent [OF head])
      have "bytes_read (n # ns) (encodings rs) = length (encodings (take m rs)) + bytes_read ns (encodings (drop m rs))"
        unfolding bytes_read_Cons k_def [symmetric] rest whole(2) ..
      note bytes = this
      have "list_all travelling_set (drop m cmds)"
        using Cons.prems(2) by (auto simp: list_all_iff dest: in_set_dropD)
      from Cons.IH [OF tail this, of off]
      consider (stops) e where "replica_reads ns (encodings (drop m rs)) off = Panic e"
        | (goes_on) i where "replica_reads ns (encodings (drop m rs)) off =
              Return (off + word_of_nat (bytes_read ns (encodings (drop m rs))), replicated (take i (drop m cmds)))"
            "arrived (bytes_read ns (encodings (drop m rs))) (encodings (take i (drop m rs)))"
        by blast
      then show ?thesis
      proof cases
        case stops
        then show ?thesis
          unfolding step parsed rest by (simp add: run)
      next
        case goes_on
        have "replicated (take (m + i) cmds) = replicated (take m cmds) @ replicated (take i (drop m cmds))"
          by (simp only: replicated_def take_add map_append)
        then have "replica_reads (n # ns) (encodings rs) offset =
            Return (offset + word_of_nat (bytes_read (n # ns) (encodings rs)), replicated (take (m + i) cmds))"
          unfolding step parsed rest bytes by (simp add: run goes_on(1)) (simp add: off_def)
        moreover have "arrived (bytes_read (n # ns) (encodings rs)) (encodings (take (m + i) rs))"
          unfolding bytes using goes_on(2) by (simp add: arrived_def take_add)
        ultimately show ?thesis
          by blast
      qed
    next
      case (unended m ini a)
      define u where "u = Array (map BulkString ini @ [File a])"
      define off where "off = offset + word_of_nat (length (encodings (take m rs)))"
      have m: "m < length cmds" and sent: "sent_as (cmds ! m) (rs ! m)"
        using unended(1) Cons.prems(1) by (auto simp: list_all2_conv_all_nth)
      have set: "travelling_set (cmds ! m)"
        using m Cons.prems(2) by (simp add: list_all_length)
      have parsed: "parsed_resps (take k (encodings rs)) = Return (take m rs @ [u])"
        using unended(4) by (simp add: parsed_resps_def parse_resp_def u_def del: take_append)
      have enc: "encode_resp (rs ! m) = encode_resp u @ [13, 10]"
        by (simp add: unended(2) u_def)
      have split: "encodings rs = encodings (take m rs) @ encode_resp u @ 13 # 10 # encodings (drop (Suc m) rs)"
        using id_take_nth_drop [OF unended(1)] enc
        by (metis append.assoc append_Cons append_Nil concat.simps(2) concat_append list.simps(9) map_append)
      have tk: "take k (encodings rs) = encodings (take m rs) @ encode_resp u"
        using unended(3) by (simp add: u_def del: encode_resp.simps)
      then have rest: "drop k (encodings rs) = 13 # 10 # encodings (drop (Suc m) rs)"
        using append_take_drop_id [of k "encodings rs"] split by (metis append.assoc same_append_eq)
      have head: "list_all2 sent_as (take m cmds) (take m rs)"
        using Cons.prems(1) by (simp add: list_all2_takeI)
      have run: "run_replica (take m rs) offset = Return (off, replicated (take m cmds))"
        unfolding off_def by (rule run_replica_sent [OF head])
      have bytes: "bytes_read (n # ns) (encodings rs) =
          length (encodings (take m rs)) + length (encode_resp u) + bytes_read ns (13 # 10 # encodings (drop (Suc m) rs))"
        unfolding bytes_read_Cons k_def [symmetric] rest tk by simp
      show ?thesis
        using run_replica_unended [OF sent [unfolded unended(2)] set, of off, folded u_def]
          reads_leftover [of ns "10 # encodings (drop (Suc m) rs)" "off + word_of_nat (length (encode_resp u))"]
      proof (elim disjE exE conjE)
        assume last: "run_replica [u] off = Return (off + word_of_nat (length (encode_resp u)), replicated [cmds ! m])"
          and none: "bytes_read ns (13 # 10 # encodings (drop (Suc m) rs)) = 0"
            "replica_reads ns (13 # 10 # encodings (drop (Suc m) rs)) (off + word_of_nat (length (encode_resp u))) =
               Return (off + word_of_nat (length (encode_resp u)), [])"
        have "replicated (take (Suc m) cmds) = replicated (take m cmds) @ replicated [cmds ! m]"
          by (simp only: replicated_def take_Suc_conv_app_nth [OF m] map_append)
        then have "replica_reads (n # ns) (encodings rs) offset =
            Return (offset + word_of_nat (bytes_read (n # ns) (encodings rs)), replicated (take (Suc m) cmds))"
          unfolding step parsed rest bytes
          by (simp add: run_replica_append run last none del: run_replica.simps(2)) (simp add: off_def)
        moreover have "arrived (bytes_read (n # ns) (encodings rs)) (encodings (take (Suc m) rs))"
          unfolding bytes none(1) by (simp add: arrived_def take_Suc_conv_app_nth [OF unended(1)] enc)
        ultimately show ?thesis
          by blast
      qed (unfold step parsed rest, simp_all add: run_replica_append run del: run_replica.simps(2))
    qed
  qed
qed

lemma sent_groups:
  assumes "concat groups = map Replicate cmds" and "omap push_bytes groups = Return bs" and "list_all2 sent_as cmds rs"
  shows "\<exists>gs. concat gs = rs \<and> bs = map encodings gs"
  using assms
proof (induction groups arbitrary: cmds rs bs)
  case (Cons g groups)
  from Cons.prems(2) obtain b bs' where b: "push_bytes g = Return b" "omap push_bytes groups = Return bs'" "bs = b # bs'"
    by (cases "push_bytes g"; cases "omap push_bytes groups") auto
  define i where "i = length g"
  have "g = map Replicate (take i cmds)" "concat groups = map Replicate (drop i cmds)"
    using Cons.prems(1) by (simp_all add: i_def take_map [symmetric] drop_map [symmetric] flip: Cons.prems(1))
  moreover have "list_all2 sent_as (take i cmds) (take i rs)" "list_all2 sent_as (drop i cmds) (drop i rs)"
    using Cons.prems(3) by (simp_all add: list_all2_takeI list_all2_dropI)
  ultimately have "b = encodings (take i rs)" "\<exists>gs. concat gs = drop i rs \<and> bs' = map encodings gs"
    using b sent_push_bytes Cons.IH by (fastforce, blast)
  then show ?case
    using b(3) by (metis append_take_drop_id concat.simps(2) list.simps(9))
qed simp

lemma reads_between_commands_deliver:
  assumes "reads_between_commands ns (map Replicate cmds)" and "list_all2 sent_as cmds rs"
  shows "replica_reads ns (encodings rs @ later) offset = Return (offset + word_of_nat (length (encodings rs)), replicated cmds)"
proof -
  obtain groups bs where groups: "concat groups = map Replicate cmds" "omap push_bytes groups = Return bs"
    "list_all (\<lambda>b. length b \<le> 1024) bs" "ns = map length bs"
    using assms(1) by (auto simp: reads_between_commands_def)
  from sent_groups [OF this(1,2) assms(2)] obtain gs where gs: "concat gs = rs" "bs = map encodings gs"
    by blast
  have "list_all resp_ok rs"
    using sent_framed [OF assms(2)] by (rule framed_ok)
  with groups(3) have "list_all (\<lambda>g. list_all resp_ok g \<and> length (encodings g) \<le> 1024) gs"
    by (auto simp: gs(2) list_all_iff simp flip: gs(1))
  moreover have "encodings rs = concat (map encodings gs)"
    unfolding gs(1) [symmetric] by (induction gs) simp_all
  ultimately show ?thesis
    using replica_reads_groups [of gs later offset] run_replica_sent [OF assms(2), of offset]
    by (simp add: groups(4) gs)
qed

section \<open>Properties\<close>

text \<open>
  C13. Replication delivers: the \<open>SET\<close> commands that the master pushes to a replica are written, read,
  parsed and decoded to the same commands. However the bytes are cut into reads, each parsed on its own
  and none longer than 1024 bytes, the replica either panics (on a command that is cut) or has given its
  store exactly those commands, in order, that have arrived (but for the final CRLF of the last one), and
  its offset has grown by exactly the bytes read. Reads that end between commands never
  panic, and deliver all of them.
\<close>

theorem replication_delivers:
  assumes "list_all travelling_set cmds"
  shows "\<exists>b. push_bytes (map Replicate cmds) = Return b
    \<and> (\<forall>ns. (\<exists>e. replica_reads ns b offset = Panic e)
          \<or> (\<exists>m b'. replica_reads ns b offset = Return (offset + word_of_nat (bytes_read ns b), replicated (take m cmds))
                \<and> push_bytes (map Replicate (take m cmds)) = Return b' \<and> arrived (bytes_read ns b) b'))
    \<and> (\<forall>ns. reads_between_commands ns (map Replicate cmds) \<longrightarrow>
          replica_reads ns b offset = Return (offset + word_of_nat (length b), replicated cmds))"
proof -
  obtain rs where sent: "list_all2 sent_as cmds rs"
    using travelling_sets_sent [OF assms] .
  then have "push_bytes (map Replicate (take m cmds)) = Return (encodings (take m rs))" for m
    by (intro sent_push_bytes) (rule list_all2_takeI)
  then show ?thesis
    using sent_push_bytes [OF sent] reads_sent [OF sent assms] reads_between_commands_deliver [OF _ sent, of _ "[]"]
    by (intro exI [of _ "encodings rs"] conjI allI impI) (simp, blast, simp)
qed

text \<open>Two \<open>SET\<close>s, the bytes of the first in one read and those of the second in another.\<close>

lemma demo_sets:
  "list_all travelling_set [Set [97] [1, 13, 10] None None, Set [98] [] None None]"
  by (simp add: travelling_set_def travels_def wire_ok_def to_resp_def key_to_str_def expiry_args_def bulk_string_def from_utf8_def)

lemma demo_reads:
  "reads_between_commands [29, 26] (map Replicate [Set [97] [1, 13, 10] None None, Set [98] [] None None])"
  unfolding reads_between_commands_def
proof (intro exI conjI)
  show "concat [[Replicate (Set [97] [1, 13, 10] None None)], [Replicate (Set [98] [] None None)]] =
      map Replicate [Set [97] [1, 13, 10] None None, Set [98] [] None None]"
    by simp
  show "omap push_bytes [[Replicate (Set [97] [1, 13, 10] None None)], [Replicate (Set [98] [] None None)]] =
      Return [encodings [Array [bulk_string ''SET'', BulkString [97], BulkString [1, 13, 10]]],
              encodings [Array [bulk_string ''SET'', BulkString [98], BulkString []]]]"
    by (simp add: push_bytes_def handle_push_def to_resp_def key_to_str_def expiry_args_def from_utf8_def unwrap_def
        del: encode_resp.simps)
qed (simp_all add: bulk_string_def nat_to_string.simps)

theorem replication_delivers_witness:
  "\<exists>b. push_bytes [Replicate (Set [97] [1, 13, 10] None None), Replicate (Set [98] [] None None)] = Return b
    \<and> replica_reads [29, 26] b 5 = Return (5 + word_of_nat (length b),
        [SendStore (ReplicateEnvelope (Set [97] [1, 13, 10] None None)),
         SendStore (ReplicateEnvelope (Set [98] [] None None))])"
  using replication_delivers [OF demo_sets, of 5] demo_reads by (auto simp: replicated_def)

text \<open>
  \<open>REPLCONF GETACK\<close> reports the bytes processed before it: pushed after some commands and read with
  them, it is answered with the offset at which they end, and is itself counted only afterwards.
\<close>

lemma getack_sent:
  obtains r where "push_bytes [Replicate ReplconfGetAck] = Return (encode_resp r)" "resp_ok r"
    "from_resp r = decoded ReplconfGetAck"
proof -
  obtain r where r: "to_resp ReplconfGetAck = Return (Some r)" "from_resp r = decoded ReplconfGetAck"
    using wire_roundtrip [of ReplconfGetAck] by (auto simp: wire_ok_def)
  then show ?thesis
    by (intro that [of r]) (auto simp: push_bytes_def handle_push_def to_resp_def bulk_string_def)
qed

theorem getack_reports_offset:
  assumes "list_all travelling_set cmds" and "push_bytes (map Replicate cmds) = Return b"
    and "push_bytes [Replicate ReplconfGetAck] = Return g" and "length (b @ g) \<le> 1024"
  shows "replica_reads [length (b @ g)] (b @ g) offset = Return (offset + word_of_nat (length b) + word_of_nat (length g),
    replicated cmds @ [WriteResp (ack_reply (offset + word_of_nat (length b)))])"
proof -
  obtain rs where sent: "list_all2 sent_as cmds rs"
    using travelling_sets_sent [OF assms(1)] .
  obtain r where r: "push_bytes [Replicate ReplconfGetAck] = Return (encode_resp r)" "resp_ok r"
    "from_resp r = decoded ReplconfGetAck"
    by (rule getack_sent)
  have b: "b = encodings rs" and g: "g = encode_resp r"
    using assms(2,3) sent_push_bytes [OF sent] r(1) by simp_all
  have "replica_reads [length (b @ g)] (b @ g) offset = run_replica (rs @ [r]) offset"
    using replica_reads_groups [of "[rs @ [r]]" "[]" offset] framed_ok [OF sent_framed [OF sent]] r(2) assms(4)
    by (simp add: b g)
  then show ?thesis
    by (simp add: run_replica_append run_replica_sent [OF sent] replica_step_def process_replica_message_def r(3) b g
        length_encode_resp [symmetric])
qed

end
