(* ===== verification/Handshake.thy ===== *)
theory Handshake
  imports Replica
begin

text \<open>
  The handshake of a replica with its master, both sides of it: the commands the replica sends, the
  connection task of the master that answers them, and the file and the commands that follow. The
  reads of the replica have at most 1024 bytes, which bounds the file it can take.
\<close>

section \<open>What is sent and what is read\<close>

lemma handshake_encoded:
  "\<exists>r1 r2 r3 r4. omap handle_push (map Replicate (handshake_commands own_port)) = Return [r1, r2, r3, r4]
     \<and> from_resp r1 = decoded (Ping None) \<and> from_resp r2 = decoded (ReplconfListeningPort own_port)
     \<and> from_resp r3 = decoded (ReplconfCapa [as_bytes ''psync2'']) \<and> from_resp r4 = decoded (Psync (as_bytes ''?'') (- 1))"
proof -
  have sent: "\<exists>r. handle_push (Replicate cmd) = Return r \<and> from_resp r = decoded cmd" if "wire_ok cmd" for cmd
    using wire_roundtrip [OF that] by (auto simp: handle_push_def)
  have wire: "wire_ok (Ping None)" "wire_ok (ReplconfListeningPort own_port)"
    "wire_ok (ReplconfCapa [as_bytes ''psync2''])" "wire_ok (Psync (as_bytes ''?'') (- 1))"
    by (simp_all add: wire_ok_def from_utf8_def byte_simps)
  from wire [THEN sent] show ?thesis
    by (force simp: handshake_commands_def)
qed

lemma encode_starts [simp]: "\<not> starts_with (encode_resp r @ rest) crlf"
  by (cases r) (simp_all add: byte_simps)

lemma parse_sync:
  assumes "length f < 2 ^ 64" and "list_all resp_ok rs"
  shows "parsed_resps (encode_resp fullresync_reply @ encode_resp (File f) @ concat (map encode_resp rs)) =
    Return (fullresync_reply # File f # rs)"
proof -
  have "\<not> starts_with (concat (map encode_resp rs)) crlf"
    by (cases rs) simp_all
  then have "parse_resp_loop [fullresync_reply] (encode_resp (File f) @ concat (map encode_resp rs)) =
      POk (fullresync_reply # File f # rs) []"
    using parse_resp_loop_encoded [OF assms(2)]
    by (subst parse_resp_loop.simps) (simp del: encode_resp.simps add: file_parsed [OF assms(1)])
  moreover have "resp_ok fullresync_reply"
    by (simp add: fullresync_reply_def simple_string_def byte_simps)
  ultimately show ?thesis
    unfolding parsed_resps_def parse_resp_def
    by (subst parse_resp_loop.simps) (simp del: encode_resp.simps add: parse_encoded)
qed

lemma parse_sync_read:
  assumes "length f < 2 ^ 64" and "list_all resp_ok rs"
    and "length (encode_resp fullresync_reply @ encode_resp (File f) @ encodings rs) \<le> 1024"
  shows "read_resp_from_stream (length (encode_resp fullresync_reply @ encode_resp (File f) @ encodings rs))
      (encode_resp fullresync_reply @ encode_resp (File f) @ encodings rs @ later) =
    Return (Some (fullresync_reply # File f # rs), later)"
proof -
  let ?b = "encode_resp fullresync_reply @ encode_resp (File f) @ encodings rs"
  have "take (min (length ?b) 1024) (?b @ later) = ?b" and "?b \<noteq> []"
    using assms(3) by (simp_all add: min_def fullresync_reply_def simple_string_def)
  then have "read_resp_from_stream (length ?b) (?b @ later) = Return (Some (fullresync_reply # File f # rs), later)"
    unfolding read_resp_from_stream_def Let_def by (simp only: parse_sync [OF assms(1,2)]) simp
  then show ?thesis
    by simp
qed

lemma parse_file_read:
  assumes "length f < 2 ^ 64" and "list_all resp_ok rs" and "length (encode_resp (File f) @ encodings rs) \<le> 1024"
  shows "read_resp_from_stream (length (encode_resp (File f) @ encodings rs)) (encode_resp (File f) @ encodings rs @ later) =
    Return (Some (File f # rs), later)"
proof -
  let ?b = "encode_resp (File f) @ encodings rs"
  have "\<not> starts_with (encodings rs) crlf"
    by (cases rs) simp_all
  then have "parse_resp_loop [] ?b = POk (File f # rs) []"
    using parse_resp_loop_encoded [OF assms(2)]
    by (subst parse_resp_loop.simps) (simp del: encode_resp.simps add: file_parsed [OF assms(1)])
  moreover have "take (min (length ?b) 1024) (?b @ later) = ?b" and "?b \<noteq> []"
    using assms(3) by (simp_all add: min_def)
  ultimately have "read_resp_from_stream (length ?b) (?b @ later) = Return (Some (File f # rs), later)"
    unfolding read_resp_from_stream_def Let_def by (simp only: parsed_resps_def parse_resp_def) simp
  then show ?thesis
    by simp
qed

lemma read_one:
  assumes "resp_ok r" and "length (encode_resp r) \<le> 1024"
  shows "read_resp_from_stream (length (encode_resp r)) (encode_resp r @ later) = Return (Some [r], later)"
proof -
  obtain new where "read_resp_from_stream (length (encode_resp r)) (encode_resp r @ later) = Return (new, later)"
    "(case new of Some inputs \<Rightarrow> inputs | None \<Rightarrow> []) = [r]"
    using read_encodings [of "[r]" later] assms by auto
  then show ?thesis
    by (cases new) simp_all
qed

section \<open>Both sides\<close>

text \<open>What the master's connection task writes, as bytes.\<close>

definition sent_bytes :: "client_action list \<Rightarrow> bytes" where
  "sent_bytes out = concat (map (\<lambda>a. case a of WriteResp r \<Rightarrow> encode_resp r | _ \<Rightarrow> []) out)"

definition handshake_replies :: "resp list" where
  "handshake_replies = [simple_string ''PONG'', ok_reply, ok_reply]"

lemma replies_read:
  "read_replies 3 (map (length \<circ> encode_resp) handshake_replies @ ns) (encodings handshake_replies @ later) =
     Return (Some (ns, later))"
proof -
  have ok: "resp_ok (simple_string ''PONG'')" "length (encode_resp (simple_string ''PONG'')) \<le> 1024"
    "resp_ok ok_reply" "length (encode_resp ok_reply) \<le> 1024"
    by (simp_all add: ok_reply_def simple_string_def byte_simps)
  from read_one [OF ok(1,2)] read_one [OF ok(3,4)] show ?thesis
    by (simp add: handshake_replies_def numeral_3_eq_3)
qed

text \<open>
  C19. A resynchronisation completes: the four commands of the replica's handshake make the
  connection task of the master answer three times, register the replica with the store and
  write the answer and the file of the store. If these fit into reads of 1024 bytes (the answer and the
  file in one read, together with the first commands, or in two), and the later reads end between
  commands, then the replica drops exactly the answer and the file, starts with the first command
  after them and gives all commands to its store; its offset counts exactly their bytes.
\<close>

theorem resynchronisation_completes:
  assumes "snd (talk 3) = Some (File f)" and "list_all travelling_set (cmds @ cmds')"
    and "push_bytes (map Replicate cmds) = Return b" and "push_bytes (map Replicate cmds') = Return b'"
    and "ms = [length (encode_resp fullresync_reply @ encode_resp (File f) @ b)]
       \<or> ms = [length (encode_resp fullresync_reply), length (encode_resp (File f) @ b)]"
    and "list_all (\<lambda>n. n \<le> 1024) ms" and "reads_between_commands ns (map Replicate cmds')"
  shows "\<exists>hs out. omap handle_push (map Replicate (handshake_commands own_port)) = Return hs
    \<and> handle_inputs talk 0 hs (new_client c False) = Return (new_client c False, out)
    \<and> out = map WriteResp handshake_replies
        @ [SendStore (AddReplica c (fst (talk 3))), WriteResp fullresync_reply, WriteResp (File f)]
    \<and> run_replica_server (map (length \<circ> encode_resp) handshake_replies @ ms @ ns) (sent_bytes out @ b @ b') =
        Return (Some (word_of_nat (length (b @ b')), replicated (cmds @ cmds')))"
proof -
  obtain r1 r2 r3 r4 where hs: "omap handle_push (map Replicate (handshake_commands own_port)) = Return [r1, r2, r3, r4]"
    and "from_resp r1 = decoded (Ping None)" "from_resp r2 = decoded (ReplconfListeningPort own_port)"
      "from_resp r3 = decoded (ReplconfCapa [as_bytes ''psync2''])" "from_resp r4 = decoded (Psync (as_bytes ''?'') (- 1))"
    using handshake_encoded by blast
  then have master: "handle_inputs talk 0 [r1, r2, r3, r4] (new_client c False) = Return (new_client c False,
        map WriteResp handshake_replies @ [SendStore (AddReplica c (fst (talk 3))), WriteResp fullresync_reply, WriteResp (File f)])"
    using assms(1)
    by (simp add: handle_input_def unwrap_def handle_command_def new_client_def run_def run_normal_def perform_def
        await_def handshake_replies_def eval_nat_numeral)
  obtain rs rs' where sent: "list_all2 sent_as cmds rs" "list_all2 sent_as cmds' rs'"
    using assms(2) by (auto elim!: travelling_sets_sent)
  then have b: "b = encodings rs" "b' = encodings rs'"
    using assms(3,4) sent_push_bytes by force+
  have ok: "list_all resp_ok rs"
    using framed_ok [OF sent_framed [OF sent(1)]] .
  have f: "length f < 2 ^ 64"
    using assms(5,6) by auto
  have "resp_ok fullresync_reply"
    by (simp add: fullresync_reply_def simple_string_def byte_simps)
  have sync: "await_sync (ms @ ns) [] (encode_resp fullresync_reply @ encode_resp (File f) @ b @ b') = Return (Some (rs, ns, b'))"
    using assms(5)
  proof
    assume ms: "ms = [length (encode_resp fullresync_reply @ encode_resp (File f) @ b)]"
    with parse_sync_read [OF f ok, of b'] assms(6) show ?thesis
      by (simp add: b del: encode_resp.simps length_append)
  next
    assume ms: "ms = [length (encode_resp fullresync_reply), length (encode_resp (File f) @ b)]"
    with parse_file_read [OF f ok, of b'] read_one [of fullresync_reply "encode_resp (File f) @ b @ b'"]
      \<open>resp_ok fullresync_reply\<close> assms(6)
    show ?thesis
      by (simp add: b del: encode_resp.simps length_append)
  qed
  have "run_replica_server (map (length \<circ> encode_resp) handshake_replies @ ms @ ns)
      (encodings handshake_replies @ encode_resp fullresync_reply @ encode_resp (File f) @ b @ b') =
        Return (Some (word_of_nat (length (b @ b')), replicated (cmds @ cmds')))"
    using reads_between_commands_deliver [OF assms(7) sent(2), of "[]"]
    unfolding run_replica_server_def replica_server_handshake_def replies_read
    unfolding b by (simp add: sync [unfolded b] run_replica_sent [OF sent(1)] replicated_def del: encode_resp.simps)
  with hs master show ?thesis
    by (simp add: sent_bytes_def handshake_replies_def)
qed

theorem resynchronisation_completes_witness:
  "\<exists>hs out. omap handle_push (map Replicate (handshake_commands 6380)) = Return hs
    \<and> handle_inputs (\<lambda>i. (i + 40, Some (File [82, 69]))) 0 hs (new_client 5 False) = Return (new_client 5 False, out)
    \<and> run_replica_server (map (length \<circ> encode_resp) handshake_replies
          @ [length (encode_resp fullresync_reply @ encode_resp (File [82, 69]) @ [])] @ [29, 26])
        (sent_bytes out @ [] @ encodings [Array [bulk_string ''SET'', BulkString [97], BulkString [1, 13, 10]],
           Array [bulk_string ''SET'', BulkString [98], BulkString []]]) =
      Return (Some (55, [SendStore (ReplicateEnvelope (Set [97] [1, 13, 10] None None)),
         SendStore (ReplicateEnvelope (Set [98] [] None None))]))"
proof -
  let ?b = "encodings [Array [bulk_string ''SET'', BulkString [97], BulkString [1, 13, 10]],
    Array [bulk_string ''SET'', BulkString [98], BulkString []]]"
  have push: "push_bytes (map Replicate []) = Return []"
    "push_bytes (map Replicate [Set [97] [1, 13, 10] None None, Set [98] [] None None]) = Return ?b"
    by (simp_all add: push_bytes_def handle_push_def to_resp_def key_to_str_def expiry_args_def from_utf8_def unwrap_def
        del: encode_resp.simps)
  have result: "word_of_nat (length ([] @ ?b)) = (55 :: u64)"
    "replicated ([] @ [Set [97] [1, 13, 10] None None, Set [98] [] None None]) =
       [SendStore (ReplicateEnvelope (Set [97] [1, 13, 10] None None)), SendStore (ReplicateEnvelope (Set [98] [] None None))]"
    by (simp_all add: bulk_string_def nat_to_string.simps replicated_def)
  have small: "list_all (\<lambda>n. n \<le> 1024) [length (encode_resp fullresync_reply @ encode_resp (File [82, 69]) @ [])]"
    by (simp add: fullresync_reply_def simple_string_def nat_to_string.simps)
  have sets: "list_all travelling_set ([] @ [Set [97] [1, 13, 10] None None, Set [98] [] None None])"
    using demo_sets by simp
  from resynchronisation_completes [of "\<lambda>i. (i + 40, Some (File [82, 69]))" "[82, 69]",
      OF _ sets push disjI1 [OF refl] small demo_reads, of 6380 5]
  show ?thesis
    unfolding result snd_conv by blast
qed

section \<open>Files that do not fit into a read\<close>

lemma await_sync_Cons:
  assumes "take (min n 1024) stream \<noteq> []"
  shows "await_sync (n # ns) queue stream =
    obind (parsed_resps (take (min n 1024) stream)) (\<lambda>new_resp.
      if 2 \<le> length (queue @ new_resp) then Return (Some (drop 2 (queue @ new_resp), ns, drop (min n 1024) stream))
      else await_sync ns (queue @ new_resp) (drop (min n 1024) stream))"
proof -
  have "drop (length (take (min n 1024) stream)) stream = drop (min n 1024) stream"
    by (metis append_eq_conv_conj append_take_drop_id)
  with assms show ?thesis
    by (simp only: await_sync.simps read_resp_from_stream_def Let_def if_False) (simp add: obind_assoc)
qed

lemma await_file:
  assumes "1024 < length (encode_resp (File f))" and "length f < 2 ^ 64"
  shows "await_sync ns [r] (encode_resp (File f) @ later) \<noteq> Return (Some x)"
proof (induction ns)
  case (Cons n ns)
  define k where "k = min n 1024"
  show ?case
  proof (cases "take k (encode_resp (File f) @ later) = []")
    case True
    then show ?thesis
      using Cons by (simp add: k_def del: encode_resp.simps)
  next
    case False
    have k: "0 < k" "k < length (encode_resp (File f))"
      using False assms(1) by (auto simp: k_def)
    then have part: "take k (encode_resp (File f) @ later) = take k (encode_resp (File f))"
      by (simp del: encode_resp.simps)
    obtain e where "parsed_resps (take k (encode_resp (File f))) = Panic e"
      using parsed_resps_fails [OF fails_parse_resp_loop [OF cut_file [OF k assms(2)]]] by blast
    then show ?thesis
      unfolding await_sync_Cons [OF False [unfolded k_def], folded k_def] part by simp
  qed
qed simp

lemma await_start:
  assumes "1024 < length (encode_resp (File f))" and "length f < 2 ^ 64"
  shows "await_sync ns [] (encode_resp fullresync_reply @ encode_resp (File f) @ later) \<noteq> Return (Some x)"
proof (induction ns)
  case (Cons n ns)
  define k where "k = min n 1024"
  let ?line = "encode_resp fullresync_reply" and ?stream = "encode_resp fullresync_reply @ encode_resp (File f) @ later"
  have ok: "resp_ok fullresync_reply"
    by (simp add: fullresync_reply_def simple_string_def byte_simps)
  obtain s where line: "fullresync_reply = SimpleString s" "10 \<notin> set s"
    by (simp add: fullresync_reply_def simple_string_def byte_simps)
  have "fails (parse_resp_loop [] (take k ?stream)) \<or> take k ?stream = [] \<or> k = length ?line"
  proof -
    consider "k = 0" | "0 < k" "k < length ?line" | "k = length ?line" | "length ?line < k"
      by linarith
    then show ?thesis
    proof cases
      case 2
      then have "take k ?stream = take k ?line"
        by simp
      with 2 cut_line [OF _ _ line(2)] show ?thesis
        by (simp add: line(1) fails_parse_resp_loop del: encode_resp.simps)
    next
      case 4
      define j where "j = k - length ?line"
      have j: "0 < j" "j < length (encode_resp (File f))"
        using 4 assms(1) by (auto simp: j_def k_def)
      have part: "take k ?stream = ?line @ take j (encode_resp (File f))"
        using 4 j(2) by (simp add: j_def del: encode_resp.simps)
      have "fails (parse_resp_loop [fullresync_reply] (take j (encode_resp (File f))))"
        by (rule fails_parse_resp_loop [OF cut_file [OF j assms(2)]])
      then have "fails (parse_resp_loop [] (take k ?stream))"
        unfolding part by (subst parse_resp_loop.simps) (simp add: parse_encoded [OF ok] del: encode_resp.simps)
      then show ?thesis
        by blast
    qed simp_all
  qed
  then consider (broken) e where "take k ?stream \<noteq> []" "parsed_resps (take k ?stream) = Panic e"
    | (nothing) "take k ?stream = []" | (line) "k = length ?line"
    using parsed_resps_fails by metis
  then show ?case
  proof cases
    case broken
    then show ?thesis
      by (simp only: await_sync_Cons [OF broken(1) [unfolded k_def], folded k_def] broken(2)) simp
  next
    case nothing
    then show ?thesis
      using Cons by (simp add: k_def del: encode_resp.simps)
  next
    case line
    then have parts: "take k ?stream = ?line" "drop k ?stream = encode_resp (File f) @ later"
      by simp_all
    have "take k ?stream \<noteq> []"
      unfolding parts by (simp add: fullresync_reply_def simple_string_def)
    note step = await_sync_Cons [OF this [unfolded k_def], folded k_def]
    have "parsed_resps ?line = Return [fullresync_reply]"
      using parsed_encodings [of "[fullresync_reply]"] ok by simp
    with await_file [OF assms] show ?thesis
      unfolding step parts by simp
  qed
qed simp

text \<open>
  C18. A resynchronisation with a larger file cannot complete: a file whose encoding is longer than the
  1024 bytes of a read is never accepted, however the bytes are cut into reads. The task of the
  replica panics in the read that reaches the file, or is still waiting.
\<close>

theorem larger_file_is_never_accepted:
  assumes "1024 < length (encode_resp (File f))" and "length f < 2 ^ 64"
  shows "replica_server_handshake (map (length \<circ> encode_resp) handshake_replies @ ns)
      (encodings handshake_replies @ encode_resp fullresync_reply @ encode_resp (File f) @ later) \<noteq> Return (Some x)"
proof -
  from await_start [OF assms, of ns later x] show ?thesis
    by (simp add: replica_server_handshake_def replies_read del: encode_resp.simps)
qed

lemma larger_file_is_never_accepted_witness:
  "replica_server_handshake (map (length \<circ> encode_resp) handshake_replies @ [58, 1024, 1024])
      (encodings handshake_replies @ encode_resp fullresync_reply @ encode_resp (File (replicate 1024 0)) @ []) \<noteq>
    Return (Some ([], [], []))"
  by (rule larger_file_is_never_accepted) simp_all

end
