(* ===== verification/Replication.thy ===== *)
theory Replication
  imports Server Replica
begin

text \<open>
  A master and its replica together: what the master's store task pushes, what the replica reads
  and posts to its own store, and what both stores hold afterwards.
\<close>

section \<open>Runs of the store task\<close>

primrec serve_all :: "(env \<times> envelope) list \<Rightarrow> server \<Rightarrow> served" where
  "serve_all [] sv = Return (sv, [])"
| "serve_all (x # xs) sv =
     obind (handle (fst x) (snd x) sv) (\<lambda>(sv, out).
     obind (serve_all xs sv) (\<lambda>(sv, out'). Return (sv, out @ out')))"

text \<open>The pushes a client is sent, in order.\<close>

definition pushes_to :: "client_id \<Rightarrow> effect list \<Rightarrow> store_push list" where
  "pushes_to r out = concat (map (\<lambda>x. case x of SendPush c p \<Rightarrow> if c = r then [p] else [] | _ \<Rightarrow> []) out)"

lemma pushes_to_simps [simp]:
  "pushes_to r [] = []" "pushes_to r (out @ out') = pushes_to r out @ pushes_to r out'"
  "pushes_to r (SendReply ch x # out) = pushes_to r out"
  by (simp_all add: pushes_to_def)

lemma filter_key_hm_iter:
  assumes "iteration_order ord" and "hm_wf m" and "hm_get m k = Some v"
  shows "filter (\<lambda>x. fst x = k) (hm_iter ord m) = [(k, v)]"
proof -
  have distinct: "distinct (map fst (hm_iter ord m))"
    using assms(1,2) by (simp add: map_fst_hm_iter hm_wf_def iteration_order_distinct)
  have "(k, v) \<in> set (hm_iter ord m)"
    using assms by (simp add: set_hm_iter hm_get_iff_mem)
  then obtain xs ys where split: "hm_iter ord m = xs @ (k, v) # ys"
    by (auto dest: split_list)
  with distinct have "k \<notin> fst ` set xs" "k \<notin> fst ` set ys"
    by auto
  then have "filter (\<lambda>x. fst x = k) xs = []" "filter (\<lambda>x. fst x = k) ys = []"
    by (auto simp: filter_empty_conv image_iff)
  with split show ?thesis
    by simp
qed

lemma pushes_to_replica:
  assumes "env_ok e" and "hm_wf (clients st)" and "hm_get (clients st) r = Some True"
  shows "pushes_to r (push_to_replicas e cmd st) = [Replicate cmd]"
proof -
  have "pushes_to r (map (\<lambda>(c, _). SendPush c (Replicate cmd)) (filter snd xs)) =
      map (\<lambda>_. Replicate cmd) (filter snd (filter (\<lambda>x. fst x = r) xs))" for xs :: "(client_id \<times> bool) list"
    by (induction xs) (auto simp: pushes_to_def)
  then show ?thesis
    using filter_key_hm_iter [OF _ assms(2,3)] assms(1)
    by (simp add: push_to_replicas_def env_ok_def del: filter_filter)
qed

section \<open>One command on both sides\<close>

text \<open>Commands a client of the master may send here: a \<open>SET\<close> without expiry, or a \<open>GET\<close>.\<close>

definition plain_set :: "command \<Rightarrow> bool" where
  "plain_set cmd = (case cmd of Set _ _ None None \<Rightarrow> travels cmd | _ \<Rightarrow> False)"

definition plain_command :: "command \<Rightarrow> bool" where
  "plain_command cmd \<longleftrightarrow> plain_set cmd \<or> (\<exists>k. cmd = Get k)"

definition set_key :: "command \<Rightarrow> (key \<Rightarrow> entry option) \<Rightarrow> key \<Rightarrow> entry option" where
  "set_key cmd f = (case cmd of Set k v _ _ \<Rightarrow> f(k \<mapsto> \<lparr>prim = Str v, expire_ms = None\<rparr>) | _ \<Rightarrow> f)"

lemma execute_set:
  assumes "plain_set cmd"
  shows "\<exists>st' r. try_execute e c cmd st = Return (st', [], Done r) \<and> hm_get (data st') = set_key cmd (hm_get (data st))
    \<and> clients st' = clients st \<and> master_ack st' = master_ack st"
proof -
  from assms obtain k v where "cmd = Set k v None None"
    by (auto simp: plain_set_def split: command.splits option.splits)
  then show ?thesis
    by (auto simp: try_execute_simple is_tx_def execute_simple_def command_set_def set_key_def mark_modified_def
        map_simps fun_eq_iff)
qed

lemma handle_set:
  assumes "plain_set cmd" and "env_ok e" and "store_wf (store sv)" and "hm_get (clients (store sv)) r = Some True"
  shows "\<exists>sv' out x. handle e (WithReply c cmd ch) sv = Return (sv', out) \<and> to_resp cmd = Return (Some x)
    \<and> hm_get (data (store sv')) = set_key cmd (hm_get (data (store sv))) \<and> clients (store sv') = clients (store sv)
    \<and> master_ack (store sv') = master_ack (store sv) + word_of_nat (resp_len x)
    \<and> pushes_to r out = [Replicate cmd]"
proof -
  from assms(1) obtain k v where cmd: "cmd = Set k v None None" "travels cmd"
    by (auto simp: plain_set_def split: command.splits option.splits)
  then obtain x where x: "to_resp cmd = Return (Some x)"
    by (auto simp: travels_def split: outcome.splits option.splits)
  have rep: "is_replicatable cmd"
    by (simp add: cmd(1) is_replicatable_def)
  define st1 where "st1 = (store sv)\<lparr>pending_write_commands_for_wait := True,
    master_ack := master_ack (store sv) + word_of_nat (resp_len x)\<rparr>"
  have st1: "account cmd (store sv) = Return st1"
    using x rep by (simp add: account_def unwrap_def st1_def)
  obtain sv1 where log: "log_command cmd (sv\<lparr>store := st1\<rparr>) = Return sv1"
    by (simp add: log_command_def x)
  with log_command_store [OF log] have sv1: "log_command cmd (sv\<lparr>store := st1\<rparr>) = Return sv1" "store sv1 = st1"
    by simp_all
  obtain st2 y where st2: "try_execute e c cmd st1 = Return (st2, [], Done y)"
      "hm_get (data st2) = set_key cmd (hm_get (data st1))" "clients st2 = clients st1" "master_ack st2 = master_ack st1"
    using execute_set [OF assms(1)] by blast
  have "hm_wf (clients st2)" "hm_get (clients st2) r = Some True"
    using assms(3,4) st2(3) by (simp_all add: st1_def store_wf_def parties_wf_def)
  note pushed = pushes_to_replica [OF assms(2) this, of cmd]
  have "handle e (WithReply c cmd ch) sv = Return (sv1\<lparr>store := st2\<rparr>, SendReply ch y # push_to_replicas e cmd st2)"
    by (simp add: handle_def handle_with_reply_def st1 sv1 st2(1) after_execute_def reply_done_def rep)
  moreover have "data st1 = data (store sv)" "clients st1 = clients (store sv)"
      "master_ack st1 = master_ack (store sv) + word_of_nat (resp_len x)"
    by (simp_all add: st1_def)
  ultimately show ?thesis
    using x pushed st2(2-4)
    by (intro exI [of _ "sv1\<lparr>store := st2\<rparr>"] exI [of _ "SendReply ch y # push_to_replicas e cmd st2"] exI [of _ x]) simp
qed

lemma handle_get:
  "\<exists>sv' out. handle e (WithReply c (Get k) ch) sv = Return (sv', out) \<and> store sv' = store sv \<and> pushes_to r out = []"
  by (auto simp: handle_def handle_with_reply_def account_def is_replicatable_def log_command_def to_resp_def
      try_execute_simple is_tx_def execute_simple_def modified_keys_def after_execute_def reply_done_def)

lemma handle_replicated:
  assumes "plain_set cmd"
  shows "\<exists>sv' out. handle e (ReplicateEnvelope cmd) sv = Return (sv', out)
    \<and> hm_get (data (store sv')) = set_key cmd (hm_get (data (store sv)))"
  using execute_set [OF assms, of e 0 "store sv"] by (auto simp: handle_def)

section \<open>A whole run\<close>

type_synonym request = "env \<times> client_id \<times> command \<times> reply_channel"

definition request_ok :: "request \<Rightarrow> bool" where
  "request_ok q = (case q of (e, _, cmd, _) \<Rightarrow> env_ok e \<and> plain_command cmd)"

definition envelope_of :: "request \<Rightarrow> env \<times> envelope" where
  "envelope_of q = (case q of (e, c, cmd, ch) \<Rightarrow> (e, WithReply c cmd ch))"

lemma envelope_of_simp [simp]: "envelope_of (e, c, cmd, ch) = (e, WithReply c cmd ch)"
  by (simp add: envelope_of_def)

definition sets_of :: "request list \<Rightarrow> command list" where
  "sets_of qs = filter plain_set (map (fst \<circ> snd \<circ> snd) qs)"

lemma plain_get [simp]: "\<not> plain_set (Get k)"
  by (simp add: plain_set_def)

lemma plain_executable: "plain_command cmd \<Longrightarrow> executable cmd"
  by (auto simp: plain_command_def plain_set_def executable_def decoded_ok_def split: command.splits option.splits)

lemma master_run:
  assumes "list_all request_ok qs" and "store_wf (store m)" and "hm_get (clients (store m)) r = Some True"
  shows "\<exists>m' out xs. serve_all (map envelope_of qs) m = Return (m', out)
    \<and> pushes_to r out = map Replicate (sets_of qs)
    \<and> hm_get (data (store m')) = fold set_key (sets_of qs) (hm_get (data (store m)))
    \<and> omap to_resp (sets_of qs) = Return (map Some xs)
    \<and> master_ack (store m') = master_ack (store m) + word_of_nat (length (concat (map encode_resp xs)))"
  using assms
proof (induction qs arbitrary: m)
  case (Cons q qs)
  obtain e c cmd ch where q: "q = (e, c, cmd, ch)"
    by (cases q)
  with Cons.prems have e: "env_ok e" and cmd: "plain_command cmd"
    by (simp_all add: request_ok_def)
  show ?case
  proof (cases "plain_set cmd")
    case True
    from handle_set [OF this e Cons.prems(2,3), of c ch] obtain m1 out1 x where
      m1: "handle e (WithReply c cmd ch) m = Return (m1, out1)" "to_resp cmd = Return (Some x)"
        "hm_get (data (store m1)) = set_key cmd (hm_get (data (store m)))" "clients (store m1) = clients (store m)"
        "master_ack (store m1) = master_ack (store m) + word_of_nat (resp_len x)" "pushes_to r out1 = [Replicate cmd]"
      by blast
    have "store_wf (store m1)"
      using serves_well_handle [OF Cons.prems(2) _ m1(1)] plain_executable [OF cmd]
      by (simp add: serves_well_def envelope_ok_def)
    with Cons.IH [of m1] Cons.prems m1(4) obtain m' out xs where
      "serve_all (map envelope_of qs) m1 = Return (m', out)" "pushes_to r out = map Replicate (sets_of qs)"
      "hm_get (data (store m')) = fold set_key (sets_of qs) (hm_get (data (store m1)))"
      "omap to_resp (sets_of qs) = Return (map Some xs)"
      "master_ack (store m') = master_ack (store m1) + word_of_nat (length (concat (map encode_resp xs)))"
      by auto
    with True m1 show ?thesis
      by (intro exI [of _ m'] exI [of _ "out1 @ out"] exI [of _ "x # xs"])
        (simp add: q sets_of_def length_encode_resp [symmetric] ac_simps)
  next
    case False
    then obtain k where k: "cmd = Get k"
      using cmd by (auto simp: plain_command_def)
    from handle_get [of e c k ch m r] obtain m1 out1 where
      m1: "handle e (WithReply c cmd ch) m = Return (m1, out1)" "store m1 = store m" "pushes_to r out1 = []"
      by (auto simp: k)
    with Cons.IH [of m1] Cons.prems obtain m' out xs where
      "serve_all (map envelope_of qs) m1 = Return (m', out)" "pushes_to r out = map Replicate (sets_of qs)"
      "hm_get (data (store m')) = fold set_key (sets_of qs) (hm_get (data (store m)))"
      "omap to_resp (sets_of qs) = Return (map Some xs)"
      "master_ack (store m') = master_ack (store m) + word_of_nat (length (concat (map encode_resp xs)))"
      by auto
    with False m1 show ?thesis
      by (intro exI [of _ m'] exI [of _ "out1 @ out"] exI [of _ xs]) (simp add: q k sets_of_def)
  qed
qed (simp add: sets_of_def)

lemma replica_run:
  assumes "list_all plain_set cmds" and "length es = length cmds"
  shows "\<exists>s' out. serve_all (zip es (map ReplicateEnvelope cmds)) s = Return (s', out)
    \<and> hm_get (data (store s')) = fold set_key cmds (hm_get (data (store s)))"
  using assms
proof (induction cmds arbitrary: es s)
  case (Cons cmd cmds)
  then obtain e es' where es: "es = e # es'" "length es' = length cmds"
    by (cases es) auto
  from Cons.prems(1) obtain s1 out1 where
    "handle e (ReplicateEnvelope cmd) s = Return (s1, out1)" "hm_get (data (store s1)) = set_key cmd (hm_get (data (store s)))"
    using handle_replicated [of cmd e s] by auto
  moreover from Cons.IH [OF _ es(2), of s1] Cons.prems(1) obtain s' out where
    "serve_all (zip es' (map ReplicateEnvelope cmds)) s1 = Return (s', out)"
    "hm_get (data (store s')) = fold set_key cmds (hm_get (data (store s1)))"
    by auto
  ultimately show ?case
    by (simp add: es(1))
qed simp

lemma plain_travels: "list_all plain_set cmds \<Longrightarrow> list_all travelling_set cmds"
  by (induction cmds) (auto simp: plain_set_def travelling_set_def split: command.splits option.splits)

lemma pushed_encodings:
  "omap handle_push (map Replicate cmds) = Return rs \<Longrightarrow> omap to_resp cmds = Return (map Some xs) \<Longrightarrow> rs = xs"
proof (induction cmds arbitrary: rs xs)
  case (Cons cmd cmds)
  then show ?case
    by (cases xs) (auto simp: handle_push_def)
qed simp

section \<open>Properties\<close>

text \<open>
  C14. A replica follows its master: whatever clients send to the master (\<open>SET\<close> without expiry,
  \<open>GET\<close>), the pushes to a connected replica, written there and read in reads of at most 1024 bytes that
  end between commands, bring the store of the replica from the master's contents before to the
  master's contents after, for every key; and the replica's offset grows by exactly what the master adds
  to \<open>master_ack\<close>, so that an acknowledgement of it satisfies a \<open>WAIT\<close> for these writes. With any other
  reads the replica panics or has posted the first of these commands and no others.
\<close>

theorem replica_follows_master:
  assumes "list_all request_ok qs" and "store_wf (store m)" and "hm_get (clients (store m)) r = Some True"
    and "hm_get (data (store s)) = hm_get (data (store m))"
  shows "\<exists>m' out b envs. serve_all (map envelope_of qs) m = Return (m', out)
    \<and> push_bytes (pushes_to r out) = Return b
    \<and> (\<forall>ns. reads_between_commands ns (pushes_to r out) \<longrightarrow>
          replica_reads ns b offset = Return (offset + (master_ack (store m') - master_ack (store m)), map SendStore envs))
    \<and> (\<forall>ns. (\<exists>e. replica_reads ns b offset = Panic e)
          \<or> (\<exists>i. replica_reads ns b offset = Return (offset + word_of_nat (bytes_read ns b), map SendStore (take i envs))))
    \<and> (\<forall>es. length es = length envs \<longrightarrow> (\<exists>s' out'. serve_all (zip es envs) s = Return (s', out')
          \<and> hm_get (data (store s')) = hm_get (data (store m'))))"
proof -
  from master_run [OF assms(1-3)] obtain m' out xs where run: "serve_all (map envelope_of qs) m = Return (m', out)"
    "pushes_to r out = map Replicate (sets_of qs)"
    "hm_get (data (store m')) = fold set_key (sets_of qs) (hm_get (data (store m)))"
    and xs: "omap to_resp (sets_of qs) = Return (map Some xs)"
    and ack: "master_ack (store m') = master_ack (store m) + word_of_nat (length (encodings xs))"
    by blast
  have sets: "list_all plain_set (sets_of qs)"
    by (simp add: sets_of_def list_all_iff)
  obtain rs where sent: "list_all2 sent_as (sets_of qs) rs"
    using travelling_sets_sent [OF plain_travels [OF sets]] .
  have "rs = xs"
    using sent_pushes [OF sent] xs by (rule pushed_encodings)
  have posts: "map SendStore (take i (map ReplicateEnvelope (sets_of qs))) = replicated (take i (sets_of qs))"
    "map SendStore (map ReplicateEnvelope (sets_of qs)) = replicated (sets_of qs)" for i
    by (simp_all add: replicated_def take_map)
  have "push_bytes (pushes_to r out) = Return (encodings rs)"
    by (simp only: run(2) sent_push_bytes [OF sent])
  moreover have "replica_reads ns (encodings rs) offset =
      Return (offset + (master_ack (store m') - master_ack (store m)), map SendStore (map ReplicateEnvelope (sets_of qs)))"
    if "reads_between_commands ns (pushes_to r out)" for ns
    unfolding posts
    using reads_between_commands_deliver [OF that [unfolded run(2)] sent, of "[]"] by (simp add: ack \<open>rs = xs\<close>)
  moreover have "(\<exists>e. replica_reads ns (encodings rs) offset = Panic e)
      \<or> (\<exists>i. replica_reads ns (encodings rs) offset =
            Return (offset + word_of_nat (bytes_read ns (encodings rs)), map SendStore (take i (map ReplicateEnvelope (sets_of qs)))))" for ns
    unfolding posts using reads_sent [OF sent plain_travels [OF sets], of ns offset] by blast
  moreover have "\<exists>s' out'. serve_all (zip es (map ReplicateEnvelope (sets_of qs))) s = Return (s', out')
      \<and> hm_get (data (store s')) = hm_get (data (store m'))"
    if "length es = length (map ReplicateEnvelope (sets_of qs))" for es
    using replica_run [OF sets, of es s] that by (simp add: assms(4) run(3))
  ultimately show ?thesis
    using run(1) by blast
qed

text \<open>A master with a replica, client 4, and its first two requests.\<close>

definition demo_server :: "(client_id \<times> bool) list \<Rightarrow> server" where
  "demo_server cs = \<lparr>aof = \<lparr>aof_dir = [], aof_appendonly = [], aof_appenddirname = [],
       aof_appendfilename = [], aof_appendfsync = [], aof_file = None\<rparr>,
     disk = \<lparr>files = [], directories = []\<rparr>, store = (fresh_store False plain_config [])\<lparr>clients := cs\<rparr>\<rparr>"

definition demo_requests :: "request list" where
  "demo_requests = [(plain_env, 1, Set [97] [5] None None, 11), (plain_env, 2, Get [97], 12)]"

theorem replica_follows_master_witness:
  "\<exists>m' out s' out' envs. serve_all (map envelope_of demo_requests) (demo_server [(4, True)]) = Return (m', out)
     \<and> serve_all (zip (replicate (length envs) plain_env) envs) (demo_server []) = Return (s', out')
     \<and> hm_get (data (store s')) = hm_get (data (store m'))"
proof -
  have "plain_set (Set [97] [5] None None)"
    by (simp add: plain_set_def travels_def wire_ok_def to_resp_def key_to_str_def expiry_args_def bulk_string_def from_utf8_def)
  then have "list_all request_ok demo_requests"
    by (simp add: demo_requests_def request_ok_def plain_command_def plain_env_ok)
  moreover have "store_wf (store (demo_server [(4, True)]))"
    by (simp add: demo_server_def fresh_store_def store_wf_def data_wf_def hm_wf_def watched_wf_def sets_wf_def
        waiters_wf_def waiter_ids_def parties_wf_def pubsub_new_def zsets_wf_def)
  moreover have "hm_get (clients (store (demo_server [(4, True)]))) 4 = Some True"
      "hm_get (data (store (demo_server []))) = hm_get (data (store (demo_server [(4, True)])))"
    by (simp_all add: demo_server_def fresh_store_def hm_get_def fun_eq_iff)
  ultimately obtain m' out envs where "serve_all (map envelope_of demo_requests) (demo_server [(4, True)]) = Return (m', out)"
    "\<forall>es. length es = length envs \<longrightarrow> (\<exists>s' out'. serve_all (zip es envs) (demo_server []) = Return (s', out')
       \<and> hm_get (data (store s')) = hm_get (data (store m')))"
    using replica_follows_master [of demo_requests "demo_server [(4, True)]" 4 "demo_server []"] by blast
  moreover from this(2) [rule_format, of "replicate (length envs) plain_env"]
  obtain s' out' where "serve_all (zip (replicate (length envs) plain_env) envs) (demo_server []) = Return (s', out')"
    "hm_get (data (store s')) = hm_get (data (store m'))"
    by auto
  ultimately show ?thesis
    by blast
qed

end
