(* ===== verification/Transactions.thy ===== *)
theory Transactions
  imports TryExecute
begin

text \<open>
  The optimistic lock: who watches a key, what every command does to that, and what \<open>EXEC\<close>
  promises to a client whose watched keys others have modified.
\<close>

section \<open>Who watches a key\<close>

definition watchers :: "store \<Rightarrow> key \<Rightarrow> client_id set" where
  "watchers st k = (case hm_get (watched_keys st) k of Some cs \<Rightarrow> set cs | None \<Rightarrow> {})"

lemma watchers_cong: "watched_keys st' = watched_keys st \<Longrightarrow> watchers st' = watchers st"
  by (simp add: watchers_def fun_eq_iff)

lemma watched_get:
  "store_wf st \<Longrightarrow> hm_get (watched_keys st) k = Some cs \<Longrightarrow> distinct cs \<and> cs \<noteq> []"
  by (auto simp: store_wf_def watched_wf_def sets_wf_def list_all_iff dest!: hm_get_mem)

lemma lock_failed_iff:
  assumes "store_wf st"
  shows "lock_failed c st \<longleftrightarrow> (\<exists>k. c \<in> watchers st k \<and> watchers st k \<noteq> {c})"
proof -
  have wf: "hm_wf (watched_keys st)"
    using assms by (simp add: store_wf_def watched_wf_def sets_wf_def)
  have more: "1 < length cs \<longleftrightarrow> set cs \<noteq> {c}" if "distinct cs" "c \<in> set cs" for cs
  proof
    assume "1 < length cs"
    then show "set cs \<noteq> {c}"
      using distinct_card [OF that(1)] by auto
  next
    assume "set cs \<noteq> {c}"
    with that(2) have "{c} \<subset> set cs"
      by auto
    then show "1 < length cs"
      using distinct_card [OF that(1)] psubset_card_mono [of "set cs" "{c}"] by simp
  qed
  show ?thesis
  proof
    assume "lock_failed c st"
    then obtain k cs where "(k, cs) \<in> set (watched_keys st)" "c \<in> set cs" "1 < length cs"
      by (auto simp: lock_failed_def list_ex_iff)
    then have get: "hm_get (watched_keys st) k = Some cs"
      using hm_get_iff_mem [OF wf] by blast
    with more [of cs] watched_get [OF assms get] \<open>c \<in> set cs\<close> \<open>1 < length cs\<close>
    have "c \<in> watchers st k \<and> watchers st k \<noteq> {c}"
      by (simp add: watchers_def)
    then show "\<exists>k. c \<in> watchers st k \<and> watchers st k \<noteq> {c}" ..
  next
    assume "\<exists>k. c \<in> watchers st k \<and> watchers st k \<noteq> {c}"
    then obtain k cs where get: "hm_get (watched_keys st) k = Some cs" and "c \<in> set cs" "set cs \<noteq> {c}"
      by (auto simp: watchers_def split: option.splits)
    with more [of cs] watched_get [OF assms get] hm_get_mem [OF get] show "lock_failed c st"
      by (auto simp: lock_failed_def list_ex_iff)
  qed
qed

lemma watchers_fold_modify:
  "watched_wf w \<Longrightarrow> hm_get (fold (\<lambda>k. hm_modify k (hs_insert c)) ks w) k =
     (case hm_get w k of
        Some cs \<Rightarrow> Some (if k \<in> set ks then hs_insert c cs else cs)
      | None \<Rightarrow> None)"
  by (induction ks arbitrary: w)
    (auto simp: map_simps watched_wf_modify hs_insert_def split: option.splits)

lemma watchers_mark:
  assumes "store_wf st"
  shows "watchers (mark_modified c ks st) k =
    watchers st k \<union> (if k \<in> set ks \<and> watchers st k \<noteq> {} then {c} else {})"
  using store_wf_watched [OF assms] watched_get [OF assms, of k]
  by (auto simp: watchers_def mark_modified_def watchers_fold_modify split: option.splits)

lemma watchers_fold_modify_or:
  "set (case hm_get (fold (\<lambda>k. hm_modify_or k (hs_insert c) [c]) ks w) k of Some cs \<Rightarrow> cs | None \<Rightarrow> []) =
     set (case hm_get w k of Some cs \<Rightarrow> cs | None \<Rightarrow> []) \<union> (if k \<in> set ks then {c} else {})"
proof (induction ks arbitrary: w)
  case (Cons k' ks)
  show ?case
    using Cons [of "hm_modify_or k' (hs_insert c) [c] w"] by (auto simp: map_simps split: option.splits)
qed simp

lemma watchers_eq: "watchers st k = set (case hm_get (watched_keys st) k of Some cs \<Rightarrow> cs | None \<Rightarrow> [])"
  by (simp add: watchers_def split: option.splits)

lemma watchers_watch:
  "watchers (fst (command_watch c ks st)) k = watchers st k \<union> (if k \<in> set ks then {c} else {})"
  by (simp add: watchers_eq command_watch_def watchers_fold_modify_or)

lemma get_forget: "hm_wf w \<Longrightarrow> hm_get (forget_watches c w) k =
    (case hm_get w k of Some cs \<Rightarrow> if hs_remove c cs = [] then None else Some (hs_remove c cs) | None \<Rightarrow> None)"
  by (induction w) (auto simp: forget_watches_def hm_get_def hm_wf_def split: option.splits
      dest!: map_of_SomeD intro: rev_image_eqI)

lemma watchers_cleanup:
  assumes "store_wf st"
  shows "watchers (cleanup_watches c st) k = watchers st k - {c}"
proof -
  have "hm_wf (watched_keys st)"
    using assms by (simp add: store_wf_def watched_wf_def sets_wf_def)
  then show ?thesis
    by (auto simp: watchers_def cleanup_watches_def get_forget hs_remove_def filter_empty_conv split: option.splits)
qed

section \<open>What a command does to the watches\<close>

text \<open>The keys of the waiters do not matter to the watches.\<close>

lemma watched_fetch_blpop: "watched_keys (fst (fetch_blpop ks st)) = watched_keys st"
  by (induction ks) (auto split: option.splits primitive_value.splits list.splits)

lemma watched_serve_blpop:
  "serve_blpop_waiters ws st = Return (st', out) \<Longrightarrow> watched_keys st' = watched_keys st"
proof (induction ws arbitrary: st out)
  case (Cons w ws)
  then obtain st1 out1 out2 where first: "serve_blpop_waiter w st = Return (st1, out1)"
    and rest: "serve_blpop_waiters ws st1 = Return (st', out2)"
    by auto
  obtain ch ks where "hm_get (list_blpop_waiters st) w = Some (ch, ks)"
    using first by (auto simp: serve_blpop_waiter_def)
  with first have "watched_keys st1 = watched_keys st"
    using watched_fetch_blpop [of ks "st\<lparr>list_blpop_waiters := hm_remove w (list_blpop_waiters st)\<rparr>"]
    by (auto simp: serve_blpop_waiter_def Let_def split: prod.splits if_splits)
  with Cons.IH [OF rest] show ?case
    by simp
qed simp

lemma watched_serve_xread:
  "serve_xread_waiters ws st = Return (st', out) \<Longrightarrow> watched_keys st' = watched_keys st"
proof (induction ws arbitrary: st out)
  case (Cons w ws)
  then obtain st1 out1 out2 where first: "serve_xread_waiter w st = Return (st1, out1)"
    and rest: "serve_xread_waiters ws st1 = Return (st', out2)"
    by auto
  have "watched_keys st1 = watched_keys st"
    using first by (auto simp: serve_xread_waiter_def Let_def split: option.splits)
  with Cons.IH [OF rest] show ?case
    by simp
qed simp

lemma watched_answer_waits:
  "answer_waits ws st = Return (st', out) \<Longrightarrow> watched_keys st' = watched_keys st"
proof (induction ws arbitrary: st out)
  case (Cons w ws)
  then obtain out1 where "answer_waits ws (st\<lparr>wait_waiters := hm_remove w (wait_waiters st)\<rparr>) = Return (st', out1)"
    by (auto simp: Let_def)
  from Cons.IH [OF this] show ?case
    by simp
qed simp

definition touches_watches :: "command \<Rightarrow> bool" where
  "touches_watches cmd = (case cmd of Watch _ \<Rightarrow> True | Unwatch \<Rightarrow> True | Discard \<Rightarrow> True | _ \<Rightarrow> False)"

lemma watched_push:
  "push_with e k grow initial st = Return (st', out, r) \<Longrightarrow> watched_keys st' = watched_keys st"
  by (auto simp: push_with_def notify_blpop_waiters_def Let_def dest!: watched_serve_blpop
      split: option.splits primitive_value.splits)

lemma watched_xadd: "command_xadd e k i fvs st = Return (st', out, r) \<Longrightarrow> watched_keys st' = watched_keys st"
  by (auto simp: command_xadd_def notify_xread_waiters_def Let_def dest!: watched_serve_xread
      split: option.splits primitive_value.splits sum.splits)

lemma watched_xread: "command_xread ks ms ids st = Return (st', out, r) \<Longrightarrow> watched_keys st' = watched_keys st"
  by (auto simp: command_xread_def split: if_splits)

lemma watched_replconf_ack:
  "command_replconf_ack e c n st = Return (st', out, r) \<Longrightarrow> watched_keys st' = watched_keys st"
  by (auto simp: command_replconf_ack_def Let_def dest!: watched_answer_waits)

lemma watched_blocking:
  "command_blpop ks st = (st', r) \<Longrightarrow> watched_keys st' = watched_keys st"
  "command_wait n t st = (st', r) \<Longrightarrow> watched_keys st' = watched_keys st"
  using watched_fetch_blpop [of ks st] by (auto simp: command_blpop_def command_wait_def Let_def split: prod.splits if_splits)

lemma watched_simple:
  "watched_keys (fst (command_set e k v ex px st)) = watched_keys st" "watched_keys (fst (command_incr k st)) = watched_keys st"
  "watched_keys (fst (command_lpop k n st)) = watched_keys st" "watched_keys (fst (command_zadd b s m st)) = watched_keys st"
  "watched_keys (fst (command_zrem b m st)) = watched_keys st" "watched_keys (fst (command_geoadd b lon lat m st)) = watched_keys st"
  "watched_keys (fst (command_acl_setuser e u pw st)) = watched_keys st"
  by (auto simp: command_set_def command_incr_def command_lpop_def command_zadd_def command_zrem_def command_geoadd_def
      command_acl_setuser_def Let_def split: option.splits primitive_value.splits list.splits prod.splits)

lemma watched_pubsub:
  "command_subscribe c chs st = Return (st', out, r) \<Longrightarrow> watched_keys st' = watched_keys st"
  "command_unsubscribe c chs st = Return (st', out, r) \<Longrightarrow> watched_keys st' = watched_keys st"
  by (auto simp: command_subscribe_def command_unsubscribe_def Let_def)

lemma watched_execute_simple:
  assumes "execute_simple e c cmd st = Return (st', out, r)" and "\<not> touches_watches cmd"
  shows "watched_keys st' = watched_keys st"
  using assms
  by (cases cmd; simp only: execute_simple_def command.case)
    (auto simp: touches_watches_def command_rpush_def command_lpush_def watched_simple
      dest: watched_push watched_xadd watched_xread watched_replconf_ack watched_pubsub watched_blocking
      split: prod.splits)

text \<open>Commands outside transactions.\<close>

lemma watchers_try_execute:
  assumes "try_execute e c cmd st = Return (st', out, r)" and "\<not> is_tx cmd" and "store_wf st"
  shows "watchers st' k =
    (let marked = watchers st k \<union> (if k \<in> set (modified_keys cmd) \<and> watchers st k \<noteq> {} then {c} else {})
     in case cmd of
          Watch ks \<Rightarrow> marked \<union> (if k \<in> set ks then {c} else {})
        | Unwatch \<Rightarrow> marked - {c}
        | Discard \<Rightarrow> marked - {c}
        | _ \<Rightarrow> marked)"
proof -
  define st1 where "st1 = mark_modified c (modified_keys cmd) st"
  have run: "execute_simple e c cmd st1 = Return (st', out, r)"
    using assms(1,2) by (simp add: try_execute_simple st1_def)
  have wf1: "store_wf st1"
    using keeps_tx(1) [OF assms(3)] by (simp add: st1_def keeps_def)
  note marked = watchers_mark [OF assms(3), of c "modified_keys cmd" k, folded st1_def]
  show ?thesis
  proof (cases "touches_watches cmd")
    case True
    with run marked show ?thesis
      using watchers_watch [of c _ st1 k] watchers_cleanup [OF wf1, of c k]
      by (cases cmd) (auto simp: touches_watches_def execute_simple_def command_unwatch_def command_discard_def Let_def)
  next
    case False
    then have "watchers st' = watchers st1"
      using watched_execute_simple [OF run] by (intro watchers_cong) simp
    with False marked show ?thesis
      by (cases cmd) (simp_all add: touches_watches_def Let_def)
  qed
qed

text \<open>A command changes nobody else's watches.\<close>

lemma others_watch_decoded:
  assumes "try_execute e c cmd st = Return (st', out, r)" and "decoded_ok cmd" and "store_wf st"
  shows "watchers st' k - {c} = watchers st k - {c}"
  using watchers_try_execute [OF assms(1) decoded_not_tx [OF assms(2)] assms(3), of k]
  by (auto simp: Let_def split: command.splits if_splits)

lemma others_watch_exec_all:
  assumes "exec_all (try_execute e c) cmds st = Return (st', out, rs)" and "list_all decoded_ok cmds" and "store_wf st"
  shows "store_wf st' \<and> watchers st' k - {c} = watchers st k - {c}"
  using assms
proof (induction cmds arbitrary: st out rs)
  case (Cons cmd cmds)
  then obtain st1 out1 r out2 rs2 where step: "try_execute e c cmd st = Return (st1, out1, r)"
    "exec_all (try_execute e c) cmds st1 = Return (st', out2, rs2)"
    by auto
  have "store_wf st1"
    using good_decoded [of st cmd e c] Cons.prems step(1) by (simp add: keeps_def)
  with Cons.IH [OF step(2)] others_watch_decoded [OF step(1)] Cons.prems show ?case
    by simp
qed simp

lemma watchers_tx:
  assumes "try_execute e c (InternalExecuteTx cmds) st = Return (st', out, r)" and "list_all decoded_ok cmds"
    and "store_wf st"
  shows "watchers st' k = watchers st k - {c}"
  using assms others_watch_exec_all [OF _ assms(2,3)] watchers_cleanup
  by (auto simp: try_execute_tx split: if_splits)

section \<open>Histories\<close>

text \<open>Commands that the store executes one after the other, each for its client.\<close>

inductive history :: "store \<Rightarrow> (client_id \<times> command) list \<Rightarrow> store \<Rightarrow> bool" where
  nothing: "history st [] st"
| then_cmd: "executable cmd \<Longrightarrow> try_execute e c cmd st = Return (st1, out, r) \<Longrightarrow> history st1 h st' \<Longrightarrow>
    history st ((c, cmd) # h) st'"

inductive_simps history_simps [simp]: "history st [] st'" "history st ((c, cmd) # h) st'"

lemma history_append: "history st (h @ h') st' \<Longrightarrow> \<exists>st1. history st h st1 \<and> history st1 h' st'"
proof (induction h arbitrary: st)
  case (Cons x h)
  obtain c cmd where x: "x = (c, cmd)"
    by (cases x)
  with Cons.prems obtain e st1 out r where step: "executable cmd" "try_execute e c cmd st = Return (st1, out, r)"
    and "history st1 (h @ h') st'"
    by auto
  with Cons.IH obtain st2 where "history st1 h st2" "history st2 h' st'"
    by blast
  with history.then_cmd [OF step] x show ?case
    by blast
qed (auto intro: history.nothing)

lemma history_wf: "history st h st' \<Longrightarrow> store_wf st \<Longrightarrow> store_wf st'"
proof (induction rule: history.induct)
  case (then_cmd cmd e c st st1 out r h st')
  then show ?case
    using good_try_execute [of st cmd e c] by (simp add: keeps_def)
qed

text \<open>The commands after which a client watches nothing.\<close>

definition ends_watch :: "command \<Rightarrow> bool" where
  "ends_watch cmd = (case cmd of Unwatch \<Rightarrow> True | Discard \<Rightarrow> True | InternalExecuteTx _ \<Rightarrow> True | _ \<Rightarrow> False)"

lemma still_watches_step:
  assumes "try_execute e x cmd st = Return (st', out, r)" and "executable cmd" and "store_wf st"
    and "c \<in> watchers st k" and "x = c \<longrightarrow> \<not> ends_watch cmd"
  shows "c \<in> watchers st' k"
proof (cases "is_tx cmd")
  case True
  then obtain cmds where "cmd = InternalExecuteTx cmds" "list_all decoded_ok cmds"
    using assms(2) by (cases cmd) (auto simp: is_tx_def executable_def)
  with watchers_tx [of e x cmds st st'] assms show ?thesis
    by (auto simp: ends_watch_def)
next
  case False
  with watchers_try_execute [OF assms(1) _ assms(3), of k] assms(4,5) show ?thesis
    by (auto simp: Let_def ends_watch_def split: command.splits)
qed

lemma still_watches:
  "history st h st' \<Longrightarrow> store_wf st \<Longrightarrow> c \<in> watchers st k \<Longrightarrow> \<forall>(x, cmd) \<in> set h. ends_watch cmd \<longrightarrow> x \<noteq> c \<Longrightarrow>
     c \<in> watchers st' k"
proof (induction rule: history.induct)
  case (then_cmd cmd e x st st1 out r h st')
  have "store_wf st1"
    using good_try_execute [of st cmd e x] then_cmd by (simp add: keeps_def)
  moreover have "c \<in> watchers st1 k"
    using then_cmd by (intro still_watches_step [OF then_cmd.hyps(2,1)]) auto
  ultimately show ?case
    using then_cmd by simp
qed

lemma lock_after:
  assumes wf: "store_wf st" and watch: "c \<in> watchers st k" and h: "history st h st'"
    and change: "(d, cmd) \<in> set h" "k \<in> set (modified_keys cmd)" "d \<noteq> c"
    and kept: "\<forall>(x, cmd) \<in> set h. ends_watch cmd \<longrightarrow> x \<noteq> c \<and> x \<noteq> d"
  shows "lock_failed c st'"
proof -
  obtain h1 h2 where split: "h = h1 @ (d, cmd) # h2"
    using change(1) by (meson split_list)
  with h obtain st1 st2 e out r where run: "history st h1 st1" "try_execute e d cmd st1 = Return (st2, out, r)"
    "executable cmd" "history st2 h2 st'"
    using history_append [of st h1 "(d, cmd) # h2" st'] by auto
  have kept1: "\<forall>(x, cmd) \<in> set h1. ends_watch cmd \<longrightarrow> x \<noteq> c"
    and kept2: "\<forall>(x, cmd) \<in> set h2. ends_watch cmd \<longrightarrow> x \<noteq> c" "\<forall>(x, cmd) \<in> set h2. ends_watch cmd \<longrightarrow> x \<noteq> d"
    using kept split by auto
  have wf1: "store_wf st1"
    using history_wf [OF run(1) wf] .
  have wf2: "store_wf st2"
    using good_try_execute [OF wf1 run(3), of e d] run(2) by (simp add: keeps_def)
  have c1: "c \<in> watchers st1 k"
    using still_watches [OF run(1) wf watch kept1] .
  have simple: "\<not> is_tx cmd" "\<not> touches_watches cmd"
    using change(2) by (cases cmd; simp add: modified_keys_def is_tx_def touches_watches_def)+
  have "c \<in> watchers st2 k" "d \<in> watchers st2 k"
    using watchers_try_execute [OF run(2) simple(1) wf1, of k] simple(2) c1 change(2)
    by (auto simp: Let_def touches_watches_def split: command.splits)
  then have "c \<in> watchers st' k" "d \<in> watchers st' k"
    using still_watches [OF run(4) wf2 _ kept2(1)] still_watches [OF run(4) wf2 _ kept2(2)] by auto
  with change(3) show ?thesis
    using history_wf [OF run(4) wf2] by (auto simp: lock_failed_iff)
qed

section \<open>Properties\<close>

text \<open>
  C9. The optimistic lock: if a client watches a key and another client then sends \<open>SET\<close>, \<open>INCR\<close>,
  \<open>RPUSH\<close>, \<open>LPUSH\<close> or \<open>XADD\<close> of the key (by itself, not in a transaction), and neither of the two
  gives up its watches in between (\<open>UNWATCH\<close>, \<open>DISCARD\<close>, \<open>EXEC\<close>), then \<open>EXEC\<close> of the first client runs
  none of its commands: it replies a null array, changes nothing but the watches, and sends
  nothing. Any other commands of any clients may come before, between and after.
\<close>

theorem modified_watch_aborts_exec:
  assumes "store_wf st" and "c \<in> watchers st k" and "history st h st'"
    and "(d, cmd) \<in> set h" and "k \<in> set (modified_keys cmd)" and "d \<noteq> c"
    and "\<forall>(x, cmd) \<in> set h. ends_watch cmd \<longrightarrow> x \<noteq> c \<and> x \<noteq> d"
  shows "try_execute e c (InternalExecuteTx cmds) st' = finish (cleanup_watches c st') NullArray"
  using lock_after [OF assms] by (simp add: try_execute_tx)

text \<open>
  C10. \<open>EXEC\<close> fails only for a reason, and always ends the watches: unless some key that the
  client watches names another client as well, the commands of the queue are executed in
  order, with one reply for each; whatever happens, afterwards the client watches nothing and
  nobody else's watches have changed.
\<close>

theorem exec_outcome:
  assumes "store_wf st" and "list_all decoded_ok cmds"
    and "try_execute e c (InternalExecuteTx cmds) st = Return (st', out, r)"
  shows "(\<forall>k. watchers st' k = watchers st k - {c})
    \<and> (if \<exists>k. c \<in> watchers st k \<and> watchers st k \<noteq> {c} then r = Done NullArray \<and> out = [] \<and> data st' = data st
       else \<exists>st1 rs. exec_all (try_execute e c) cmds st = Return (st1, out, rs) \<and> st' = cleanup_watches c st1
         \<and> r = Done (Array rs) \<and> length rs = length cmds)"
proof -
  have len: "length rs = length cmds" if "exec_all (try_execute e c) cmds st = Return (st1, out1, rs)" for st st1 out1 rs
    using that by (induction cmds arbitrary: st st1 out1 rs) auto
  have watches: "watchers st' k = watchers st k - {c}" for k
    using watchers_tx [OF assms(3,2,1)] .
  show ?thesis
  proof (cases "lock_failed c st")
    case True
    with assms(3) have "r = Done NullArray \<and> out = [] \<and> data st' = data st"
      by (auto simp: try_execute_tx cleanup_watches_def)
    with True watches show ?thesis
      by (simp add: lock_failed_iff [OF assms(1)])
  next
    case False
    with assms(3) obtain st1 rs where "exec_all (try_execute e c) cmds st = Return (st1, out, rs)"
      "st' = cleanup_watches c st1" "r = Done (Array rs)"
      by (auto simp: try_execute_tx)
    with False watches len show ?thesis
      unfolding lock_failed_iff [OF assms(1)] by auto
  qed
qed

section \<open>Examples\<close>

text \<open>A store in which client 1 watches a key that holds nothing.\<close>

definition watched_store :: store where
  "watched_store = (list_store [])\<lparr>watched_keys := [([97], [1])]\<rparr>"

lemma watched_store_wf [simp]: "store_wf watched_store"
  using keeps_watched [of "list_store []" "[([97], [1])]"]
  by (simp add: watched_store_def keeps_def watched_wf_def sets_wf_def hm_wf_def)

lemma watchers_example [simp]: "watchers watched_store k = (if k = [97] then {1} else {})"
  by (simp add: watchers_def watched_store_def hm_get_def)

lemma example_set:
  "\<exists>st' out r. try_execute e 2 (Set [97] [5] None None) st = Return (st', out, r)"
  by (simp add: try_execute_simple is_tx_def execute_simple_def command_set_def)

theorem modified_watch_aborts_exec_witness:
  "\<exists>st'. history watched_store [(2, Set [97] [5] None None)] st'
     \<and> try_execute plain_env 1 (InternalExecuteTx [Get [97]]) st' = finish (cleanup_watches 1 st') NullArray"
proof -
  obtain st' out r where "try_execute plain_env 2 (Set [97] [5] None None) watched_store = Return (st', out, r)"
    using example_set by blast
  then have h: "history watched_store [(2, Set [97] [5] None None)] st'"
    by (auto simp: executable_def decoded_ok_def)
  from modified_watch_aborts_exec [OF watched_store_wf _ h, of 1 "[97]" 2 "Set [97] [5] None None" plain_env "[Get [97]]"] h
  show ?thesis
    by (auto simp: modified_keys_def ends_watch_def)
qed

theorem exec_outcome_witness:
  "\<exists>st' out r. try_execute plain_env 1 (InternalExecuteTx [Get [97]]) watched_store = Return (st', out, r) \<and> watchers st' [97] = {}"
proof -
  have "\<exists>st' out r. try_execute plain_env 1 (InternalExecuteTx [Get [97]]) watched_store = Return (st', out, r)"
    by (simp add: try_execute_tx try_execute_simple is_tx_def execute_simple_def modified_keys_def)
  then obtain st' out r where run: "try_execute plain_env 1 (InternalExecuteTx [Get [97]]) watched_store = Return (st', out, r)"
    by blast
  with exec_outcome [OF watched_store_wf _ run] show ?thesis
    by (auto simp: decoded_ok_def)
qed

section \<open>A modification that is missed\<close>

text \<open>
  C11. The limit of the optimistic lock: the mark of a modifying client is also what \<open>EXEC\<close> of that
  client removes, so whatever keys another client modifies inside a transaction of its own, the
  \<open>EXEC\<close> of a client that alone watches them is not refused.
\<close>

theorem modification_in_transaction_is_missed:
  assumes "store_wf st" and "\<And>k. c \<in> watchers st k \<Longrightarrow> watchers st k = {c}" and "d \<noteq> c"
    and "list_all decoded_ok cmds" and "try_execute e d (InternalExecuteTx cmds) st = Return (st', out, r)"
  shows "\<not> lock_failed c st'"
proof -
  have "store_wf st'"
    using good_try_execute [OF assms(1), of "InternalExecuteTx cmds" e d] assms(4,5)
    by (simp add: executable_def keeps_def)
  moreover have "watchers st' k = {c}" if "c \<in> watchers st' k" for k
    using that watchers_tx [OF assms(5,4,1), of k] assms(2) [of k] by auto
  ultimately show ?thesis
    by (auto simp: lock_failed_iff)
qed

theorem modification_in_transaction_is_missed_witness:
  "\<exists>st' out r. try_execute plain_env 2 (InternalExecuteTx [Set [97] [5] None None]) watched_store = Return (st', out, r)
     \<and> hm_get (data st') [97] = Some \<lparr>prim = Str [5], expire_ms = None\<rparr> \<and> \<not> lock_failed 1 st'"
proof -
  let ?tx = "InternalExecuteTx [Set [97] [5] None None]"
  obtain st' out r where run: "try_execute plain_env 2 ?tx watched_store = Return (st', out, r)"
    and data: "hm_get (data st') [97] = Some \<lparr>prim = Str [5], expire_ms = None\<rparr>"
    by (simp add: try_execute_tx try_execute_simple is_tx_def execute_simple_def command_set_def modified_keys_def
        lock_failed_def watched_store_def cleanup_watches_def map_simps)
  have "\<not> lock_failed 1 st'"
    by (rule modification_in_transaction_is_missed [OF watched_store_wf _ _ _ run])
      (auto simp: watchers_def watched_store_def hm_get_def decoded_ok_def split: if_splits)
  with run data show ?thesis
    by blast
qed

end
