(* ===== verification/Panics.thy ===== *)
theory Panics
  imports Server
begin

text \<open>
  Which commands bring the store task down: the commands that panic are characterised, all
  others return. In particular the \<open>unwrap\<close> calls on the tables of waiters never fail.
\<close>

section \<open>Waiters\<close>

lemma serve_blpop_waiter_returns:
  assumes "hm_get (list_blpop_waiters st) w \<noteq> None"
  shows "\<exists>st' out. serve_blpop_waiter w st = Return (st', out)
    \<and> (\<forall>w'. w' \<noteq> w \<longrightarrow> hm_get (list_blpop_waiters st') w' = hm_get (list_blpop_waiters st) w')"
proof -
  obtain ch ks where get: "hm_get (list_blpop_waiters st) w = Some (ch, ks)"
    using assms by auto
  define st1 where "st1 = st\<lparr>list_blpop_waiters := hm_remove w (list_blpop_waiters st)\<rparr>"
  obtain st2 rsp emp where fetch: "fetch_blpop ks st1 = (st2, rsp, emp)"
    by (metis prod_cases3)
  then have "list_blpop_waiters st2 = hm_remove w (list_blpop_waiters st)"
    using fetch_blpop_same [of st1 ks] by (simp add: same_waiters_def st1_def)
  with get fetch show ?thesis
    by (auto simp: serve_blpop_waiter_def st1_def [symmetric] map_simps Let_def)
qed

lemma serve_blpop_waiters_returns:
  "distinct ws \<Longrightarrow> \<forall>w \<in> set ws. hm_get (list_blpop_waiters st) w \<noteq> None \<Longrightarrow>
     \<exists>st' out. serve_blpop_waiters ws st = Return (st', out)"
proof (induction ws arbitrary: st)
  case (Cons w ws)
  then obtain st1 out1 where "serve_blpop_waiter w st = Return (st1, out1)"
    and "\<forall>w'. w' \<noteq> w \<longrightarrow> hm_get (list_blpop_waiters st1) w' = hm_get (list_blpop_waiters st) w'"
    using serve_blpop_waiter_returns [of st w] by auto
  moreover from this Cons.prems Cons.IH [of st1] have "\<exists>st' out. serve_blpop_waiters ws st1 = Return (st', out)"
    by fastforce
  ultimately show ?case
    by auto
qed simp

lemma answer_waits_returns:
  "distinct ws \<Longrightarrow> \<forall>w \<in> set ws. hm_get (wait_waiters st) w \<noteq> None \<Longrightarrow>
     \<exists>st' out. answer_waits ws st = Return (st', out)"
proof (induction ws arbitrary: st)
  case (Cons w ws)
  let ?st = "st\<lparr>wait_waiters := hm_remove w (wait_waiters st)\<rparr>"
  have "\<forall>w' \<in> set ws. hm_get (wait_waiters ?st) w' \<noteq> None"
    using Cons.prems by (auto simp: map_simps)
  with Cons.IH [of ?st] Cons.prems(1) obtain st' out where "answer_waits ws ?st = Return (st', out)"
    by auto
  with Cons.prems(2) show ?case
    by (auto simp: Let_def)
qed simp

text \<open>A selection of the waiters of a table, in any iteration order, is distinct and in the table.\<close>

lemma selected_waiters:
  assumes "iteration_order ord" and "hm_wf m"
  shows "distinct (map fst (filter P (hm_iter ord m)))"
    and "w \<in> set (map fst (filter P (hm_iter ord m))) \<Longrightarrow> hm_get m w \<noteq> None"
proof -
  have "distinct (map fst (hm_iter ord m))"
    using assms by (simp add: map_fst_hm_iter hm_wf_def iteration_order_distinct)
  then show "distinct (map fst (filter P (hm_iter ord m)))"
    by (rule distinct_map_filter)
  show "hm_get m w \<noteq> None" if "w \<in> set (map fst (filter P (hm_iter ord m)))"
    using that assms by (auto simp: set_hm_iter hm_get_None_iff rev_image_eqI)
qed

lemma notify_blpop_returns:
  assumes "env_ok e" and "store_wf st"
  shows "\<exists>st' out. notify_blpop_waiters e k st = Return (st', out)"
  using selected_waiters [of "id_order e" "list_blpop_waiters st"] blpop_table.table_wf [OF assms(2)] assms(1)
  unfolding notify_blpop_waiters_def interested_def
  by (intro serve_blpop_waiters_returns) (auto simp: env_ok_def)

section \<open>Commands\<close>

text \<open>The lists are short enough for the \<open>i32\<close> arithmetic of \<open>LRANGE\<close>.\<close>

definition short_lists :: "store \<Rightarrow> bool" where
  "short_lists st \<longleftrightarrow> (\<forall>k xs. list_at k st = Some xs \<longrightarrow> length xs < 2 ^ 31)"

definition panics :: "command \<Rightarrow> store \<Rightarrow> bool" where
  "panics cmd st =
     (case cmd of
        Subscribe channels \<Rightarrow> channels = []
      | Unsubscribe channels \<Rightarrow> channels = []
      | Xrange k start stop \<Rightarrow>
          (case stream_at k st of Some s \<Rightarrow> s \<noteq> [] \<and> stop < start | None \<Rightarrow> False)
      | Geosearch _ _ _ _ unit_name \<Rightarrow> to_uppercase unit_name \<noteq> as_bytes ''M''
      | _ \<Rightarrow> False)"

definition returns :: "'a outcome \<Rightarrow> bool" where
  "returns x \<longleftrightarrow> (\<exists>y. x = Return y)"

lemma returns_simps [simp]: "returns (Return y)" "\<not> returns (Panic p)"
  by (simp_all add: returns_def)

lemma returns_obind: "returns x \<Longrightarrow> (\<And>y. returns (f y)) \<Longrightarrow> returns (obind x f)"
  by (cases x) simp_all

lemma returns_cases [simp]: "returns (case x of (a, b) \<Rightarrow> Return (f a b))"
  by (cases x) simp

lemma returns_then:
  "\<exists>a b. x = Return (a, b) \<Longrightarrow> returns (obind x (\<lambda>(a, b). Return (f a b)))"
  by auto

lemma returns_push:
  assumes "env_ok e" and "store_wf st"
  shows "returns (push_with e k grow initial st)"
proof -
  have notified: "returns (obind (notify_blpop_waiters e k (st\<lparr>data := hm_insert k v (data st)\<rparr>)) (\<lambda>(st, out). Return (st, out, r)))"
    if "entry_wf v" for v r
    using that assms(2) by (intro returns_then notify_blpop_returns [OF assms(1)] store_wf_data data_wf_insert store_wf_data_wf)
  then show ?thesis
    by (auto simp: push_with_def Let_def intro!: notified split: option.splits primitive_value.splits)
qed

lemma returns_xadd:
  assumes "store_wf st"
  shows "returns (command_xadd e k ident fvs st)"
proof -
  define st1 where "st1 = st\<lparr>data := hm_or_insert k \<lparr>prim = Stream [], expire_ms = None\<rparr> (data st)\<rparr>"
  have wf1: "store_wf st1"
    using assms by (simp add: st1_def store_wf_data data_wf_or_insert store_wf_data_wf)
  have notified: "returns (obind (notify_xread_waiters e k (st1\<lparr>data := hm_insert k v (data st1)\<rparr>)) (\<lambda>(st, out). Return (st, out, r)))"
    if "entry_wf v" for v r
    unfolding notify_xread_waiters_def
    using that wf1 by (intro returns_then serve_xread_waiters_returns store_wf_data data_wf_insert store_wf_data_wf)
  then show ?thesis
    using wf1 unfolding command_xadd_def Let_def st1_def [symmetric]
    by (auto intro!: notified entry_wf_add(2) intro: data_wf_get store_wf_data_wf
        split: option.splits primitive_value.splits sum.splits)
qed

lemma returns_replconf_ack:
  assumes "env_ok e" and "store_wf st"
  shows "returns (command_replconf_ack e c n st)"
proof -
  have "\<exists>st' out. answer_waits (map fst (filter P (hm_iter (id_order e) (wait_waiters st)))) (st\<lparr>replica_acks := a\<rparr>) = Return (st', out)"
    for P a
    using selected_waiters [of "id_order e" "wait_waiters st", where P = P] wait_table.table_wf [OF assms(2)] assms(1)
    by (intro answer_waits_returns) (auto simp: env_ok_def)
  then show ?thesis
    by (auto simp: command_replconf_ack_def Let_def intro!: returns_then)
qed

lemma returns_xread:
  assumes "length ks = length ids"
  shows "returns (command_xread ks ms ids st)"
  using assms by (simp add: command_xread_def real_ids_from_eq fetch_xread_eq)

lemma returns_lrange:
  assumes "short_lists st"
  shows "returns (command_lrange k start stop st)"
proof (cases "list_at k st")
  case (Some xs)
  with assms have "length xs < 2 ^ 31"
    by (simp add: short_lists_def)
  note this [THEN command_lrange_slice [OF Some _ refl refl]]
  then show ?thesis
    by simp
qed (simp add: command_lrange_def)

lemma returns_decoded:
  assumes "store_wf st" and "env_ok e" and "decoded_ok cmd" and "short_lists st"
  shows "returns (execute_simple e c cmd st) \<longleftrightarrow> \<not> panics cmd st"
proof -
  note arms = returns_push [OF assms(2,1)] returns_xadd [OF assms(1)] returns_replconf_ack [OF assms(2,1)]
    returns_lrange [OF assms(4)]
  have reads: "returns (reads st x) = returns x" for x
    by (cases x) simp_all
  show ?thesis
    using assms(3)
    by (cases cmd; simp only: execute_simple_def command.case)
      (auto simp: arms reads panics_def command_rpush_def command_lpush_def decoded_ok_def returns_xread
        command_subscribe_def command_unsubscribe_def subscription_reply_def index_def assert_def
        command_xrange_def range_incl_def command_geosearch_def Let_def split: option.splits)
qed

lemma short_lists_cong: "data st' = data st \<Longrightarrow> short_lists st' = short_lists st"
  by (simp add: short_lists_def list_at_def)

lemma panics_cong: "data st' = data st \<Longrightarrow> panics cmd st' = panics cmd st"
  by (cases cmd) (simp_all add: panics_def stream_at_def)

lemma mark_modified_data [simp]: "data (mark_modified c ks st) = data st"
  by (simp add: mark_modified_def)

lemma returns_try_execute:
  assumes "store_wf st" and "env_ok e" and "decoded_ok cmd" and "short_lists st"
  shows "returns (try_execute e c cmd st) \<longleftrightarrow> \<not> panics cmd st"
proof -
  let ?st = "mark_modified c (modified_keys cmd) st"
  have "store_wf ?st" "short_lists ?st" "panics cmd ?st = panics cmd st"
    using keeps_tx(1) [OF assms(1)] assms(4) short_lists_cong [of ?st st] panics_cong [of ?st st]
    by (simp_all add: keeps_def)
  then show ?thesis
    using returns_decoded [OF _ assms(2,3), of ?st c]
    by (simp add: try_execute_simple [OF decoded_not_tx [OF assms(3)]])
qed

section \<open>Transactions\<close>

text \<open>A queue panics at its first command that panics in the state it is executed in.\<close>

primrec queue_panics :: "env \<Rightarrow> client_id \<Rightarrow> command list \<Rightarrow> store \<Rightarrow> bool" where
  "queue_panics e c [] st = False"
| "queue_panics e c (cmd # cmds) st =
     (panics cmd st \<or> (case try_execute e c cmd st of
        Return (st', _, _) \<Rightarrow> queue_panics e c cmds st'
      | Panic _ \<Rightarrow> False))"

primrec queue_short :: "env \<Rightarrow> client_id \<Rightarrow> command list \<Rightarrow> store \<Rightarrow> bool" where
  "queue_short e c [] st = True"
| "queue_short e c (cmd # cmds) st =
     (short_lists st \<and> (case try_execute e c cmd st of
        Return (st', _, _) \<Rightarrow> queue_short e c cmds st'
      | Panic _ \<Rightarrow> True))"

lemma returns_exec_all:
  assumes "store_wf st" and "env_ok e" and "list_all decoded_ok cmds" and "queue_short e c cmds st"
  shows "returns (exec_all (try_execute e c) cmds st) \<longleftrightarrow> \<not> queue_panics e c cmds st"
  using assms
proof (induction cmds arbitrary: st)
  case (Cons cmd cmds)
  have here: "returns (try_execute e c cmd st) \<longleftrightarrow> \<not> panics cmd st"
    using Cons.prems by (intro returns_try_execute) simp_all
  show ?case
  proof (cases "try_execute e c cmd st")
    case (Return x)
    obtain st1 out r where x: "x = (st1, out, r)"
      by (cases x)
    have "store_wf st1"
      using good_decoded [OF Cons.prems(1), of cmd e c] Cons.prems(3) Return x by (simp add: keeps_def)
    with Cons.IH [of st1] Cons.prems Return x
    have rest: "returns (exec_all (try_execute e c) cmds st1) \<longleftrightarrow> \<not> queue_panics e c cmds st1"
      by simp
    with here Return x show ?thesis
      by (cases "exec_all (try_execute e c) cmds st1") auto
  next
    case (Panic p)
    with here show ?thesis
      by simp
  qed
qed simp

definition execute_panics :: "env \<Rightarrow> client_id \<Rightarrow> command \<Rightarrow> store \<Rightarrow> bool" where
  "execute_panics e c cmd st =
     (case cmd of
        InternalExecuteTx cmds \<Rightarrow> \<not> lock_failed c st \<and> queue_panics e c cmds st
      | _ \<Rightarrow> panics cmd st)"

definition execute_short :: "env \<Rightarrow> client_id \<Rightarrow> command \<Rightarrow> store \<Rightarrow> bool" where
  "execute_short e c cmd st =
     (case cmd of InternalExecuteTx cmds \<Rightarrow> queue_short e c cmds st | _ \<Rightarrow> short_lists st)"

lemma returns_execute:
  assumes "store_wf st" and "env_ok e" and "executable cmd" and "execute_short e c cmd st"
  shows "returns (try_execute e c cmd st) \<longleftrightarrow> \<not> execute_panics e c cmd st"
proof (cases "is_tx cmd")
  case True
  then obtain cmds where cmd: "cmd = InternalExecuteTx cmds"
    by (cases cmd) (auto simp: is_tx_def)
  then have "returns (exec_all (try_execute e c) cmds st) \<longleftrightarrow> \<not> queue_panics e c cmds st"
    using assms by (intro returns_exec_all) (simp_all add: executable_def execute_short_def)
  then show ?thesis
    by (cases "exec_all (try_execute e c) cmds st") (auto simp: cmd try_execute_tx execute_panics_def)
next
  case False
  then have "decoded_ok cmd" "short_lists st" "execute_panics e c cmd st = panics cmd st"
    using assms(3,4) by (cases cmd; simp add: is_tx_def executable_def execute_short_def execute_panics_def)+
  with returns_try_execute [OF assms(1,2)] show ?thesis
    by simp
qed

section \<open>Envelopes\<close>

text \<open>Encoding for the replicas and the append-only file fails on a key that is not UTF-8.\<close>

definition unencodable :: "command \<Rightarrow> bool" where
  "unencodable cmd = (case cmd of Set k _ _ _ \<Rightarrow> \<not> utf8_valid k | _ \<Rightarrow> False)"

definition envelope_panics :: "env \<Rightarrow> envelope \<Rightarrow> store \<Rightarrow> bool" where
  "envelope_panics e m st =
     (case m of
        WithReply c cmd _ \<Rightarrow> unencodable cmd \<or> execute_panics e c cmd st
      | ReplicateEnvelope cmd \<Rightarrow> execute_panics e 0 cmd st
      | _ \<Rightarrow> False)"

definition envelope_short :: "env \<Rightarrow> envelope \<Rightarrow> store \<Rightarrow> bool" where
  "envelope_short e m st =
     (case m of
        WithReply c cmd _ \<Rightarrow> execute_short e c cmd st
      | ReplicateEnvelope cmd \<Rightarrow> execute_short e 0 cmd st
      | _ \<Rightarrow> True)"

lemma to_resp_returns: "returns (to_resp cmd) \<longleftrightarrow> \<not> unencodable cmd"
  using to_resp_panics [of cmd, folded unencodable_def] by (cases "to_resp cmd") auto

lemma returns_account: "returns (account cmd st) \<longleftrightarrow> \<not> unencodable cmd"
proof (cases "is_replicatable cmd")
  case True
  then have "\<exists>r. to_resp cmd = Return (Some r)" if "\<not> unencodable cmd"
    using that by (cases cmd) (auto simp: is_replicatable_def to_resp_def unencodable_def key_to_str_def from_utf8_def)
  with True to_resp_returns [of cmd] show ?thesis
    by (cases "to_resp cmd") (auto simp: account_def unwrap_def)
next
  case False
  then have "\<not> unencodable cmd"
    by (cases cmd) (simp_all add: is_replicatable_def unencodable_def)
  with False show ?thesis
    by (simp add: account_def)
qed

lemma account_same:
  assumes "account cmd st = Return st'"
  shows "execute_panics e c cmd st' = execute_panics e c cmd st" "execute_short e c cmd st' = execute_short e c cmd st"
proof -
  have "data st' = data st" "is_tx cmd \<Longrightarrow> st' = st"
    using assms by (cases cmd; auto simp: account_def is_replicatable_def is_tx_def split: if_splits)+
  then show "execute_panics e c cmd st' = execute_panics e c cmd st" "execute_short e c cmd st' = execute_short e c cmd st"
    using panics_cong [of st' st cmd] short_lists_cong [of st' st]
    by (cases cmd; simp add: execute_panics_def execute_short_def is_tx_def)+
qed

lemma returns_after_execute: "result_of cmd r \<Longrightarrow> returns (after_execute e cmd chan r st)"
  by (cases r; cases cmd)
    (auto simp: after_execute_def result_of_def block_xread_def block_blpop_def block_timeout_def unwrap_def Let_def
      split: option.splits)

lemma returns_with_reply:
  assumes "store_wf (store sv)" and "env_ok e" and "executable cmd" and "execute_short e c cmd (store sv)"
  shows "returns (handle_with_reply e c cmd chan sv) \<longleftrightarrow> \<not> unencodable cmd \<and> \<not> execute_panics e c cmd (store sv)"
proof (cases "account cmd (store sv)")
  case (Return st1)
  then have enc: "\<not> unencodable cmd"
    using returns_account [of cmd "store sv"] by simp
  then obtain sv1 where log: "log_command cmd (sv\<lparr>store := st1\<rparr>) = Return sv1"
    using to_resp_returns [of cmd] by (cases "to_resp cmd") (auto simp: log_command_def)
  then have sv1: "store sv1 = st1"
    using log_command_store by fastforce
  have "store_wf st1"
    using keeps_account [OF assms(1) Return] by (simp add: keeps_def)
  then have execute: "returns (try_execute e c cmd st1) \<longleftrightarrow> \<not> execute_panics e c cmd (store sv)"
    using returns_execute [OF _ assms(2,3), of st1 c] assms(4) account_same [OF Return] by simp
  show ?thesis
  proof (cases "try_execute e c cmd st1")
    case (Return x)
    obtain st2 out r where x: "x = (st2, out, r)"
      by (cases x)
    then obtain y where "after_execute e cmd chan r st2 = Return y"
      using returns_after_execute [OF result_of_try_execute [of e c cmd st1 st2 out r], of e chan st2] Return
      by (auto simp: returns_def)
    with \<open>account cmd (store sv) = Return st1\<close> log sv1 Return x enc execute show ?thesis
      by (cases y) (simp add: handle_with_reply_def)
  next
    case (Panic p)
    with \<open>account cmd (store sv) = Return st1\<close> log sv1 execute enc show ?thesis
      by (simp add: handle_with_reply_def)
  qed
next
  case (Panic p)
  with returns_account [of cmd "store sv"] show ?thesis
    by (simp add: handle_with_reply_def)
qed

section \<open>Properties\<close>

text \<open>
  C8. Exactly these commands panic, and with them the store task and the server: a \<open>SET\<close> whose key is
  not UTF-8, \<open>SUBSCRIBE\<close> and \<open>UNSUBSCRIBE\<close> without a channel, \<open>XRANGE\<close> on a stream with entries whose
  start is above its end, \<open>GEOSEARCH\<close> in a unit other than metres, and an \<open>EXEC\<close> whose lock holds and
  whose queue reaches one of the last four (a queued \<open>SET\<close> is not encoded). Every other envelope is
  handled, whatever the store holds (lists of fewer than 2^31 elements, also while a queue is
  executed), whoever is blocked and in whatever order the hash maps are walked.
\<close>

theorem panics_exactly:
  assumes "store_wf (store sv)" and "env_ok e" and "envelope_ok m" and "envelope_short e m (store sv)"
  shows "(\<exists>x. handle e m sv = Return x) \<longleftrightarrow> \<not> envelope_panics e m (store sv)"
proof (cases m)
  case (WithReply c cmd chan)
  with assms returns_with_reply [OF assms(1,2), of cmd c chan] show ?thesis
    by (simp add: handle_def envelope_ok_def envelope_short_def envelope_panics_def returns_def)
next
  case (ReplicateEnvelope cmd)
  with assms have "returns (try_execute e 0 cmd (store sv)) \<longleftrightarrow> \<not> envelope_panics e m (store sv)"
    using returns_execute [OF assms(1,2), of cmd 0]
    by (simp add: envelope_ok_def envelope_short_def envelope_panics_def)
  with ReplicateEnvelope show ?thesis
    by (cases "try_execute e 0 cmd (store sv)") (auto simp: handle_def)
qed (auto simp: handle_def envelope_panics_def split: prod.splits)

text \<open>A key that is not UTF-8, and a queue with an \<open>XRANGE\<close> that panics.\<close>

definition stream_server :: server where
  "stream_server = \<lparr>aof = \<lparr>aof_dir = [], aof_appendonly = [], aof_appenddirname = [],
       aof_appendfilename = [], aof_appendfsync = [], aof_file = None\<rparr>,
     disk = \<lparr>files = [], directories = []\<rparr>, store = stream_store two_entries\<rparr>"

theorem panics_exactly_witness:
  "\<not> (\<exists>x. handle plain_env (WithReply 1 (Set [255] [1] None None) 9) stream_server = Return x)
   \<and> \<not> (\<exists>x. handle plain_env (WithReply 1 (InternalExecuteTx [Get [1], Xrange [115] (2, 0) (1, 0)]) 9) stream_server = Return x)"
proof -
  let ?tx = "[Get [1], Xrange [115] (2, 0) (1, 0)]"
  have st: "store stream_server = stream_store two_entries" "store_wf (store stream_server)"
    by (simp_all add: stream_server_def)
  have short: "short_lists (stream_store two_entries)"
    by (simp add: short_lists_def list_at_def stream_store_def fresh_store_def hm_get_def)
  have xrange: "panics (Xrange [115] (2, 0) (1, 0)) (stream_store two_entries)"
    by (simp add: panics_def two_entries_def less_prod_simp word_less_nat_alt)
  have get: "\<exists>r. try_execute plain_env 1 (Get [1]) (stream_store two_entries) = Return (stream_store two_entries, [], r)"
    by (simp add: try_execute_simple is_tx_def execute_simple_def modified_keys_def)
  have unlocked: "\<not> lock_failed 1 (stream_store two_entries)"
    by (simp add: lock_failed_def stream_store_def fresh_store_def)
  have "queue_panics plain_env 1 ?tx (stream_store two_entries)"
    using get xrange by auto
  with unlocked have "envelope_panics plain_env (WithReply 1 (InternalExecuteTx ?tx) 9) (store stream_server)"
    by (simp add: envelope_panics_def execute_panics_def st(1))
  moreover have "envelope_short plain_env (WithReply 1 (InternalExecuteTx ?tx) 9) (store stream_server)"
    using get short by (auto simp: envelope_short_def execute_short_def st(1) split: outcome.splits)
  moreover have "envelope_ok (WithReply 1 (InternalExecuteTx ?tx) 9)"
    by (simp add: envelope_ok_def executable_def decoded_ok_def)
  ultimately have tx: "\<not> (\<exists>x. handle plain_env (WithReply 1 (InternalExecuteTx ?tx) 9) stream_server = Return x)"
    using panics_exactly [OF st(2) plain_env_ok] by blast
  have "envelope_panics plain_env (WithReply 1 (Set [255] [1] None None) 9) (store stream_server)"
    by (simp add: envelope_panics_def unencodable_def)
  moreover have "envelope_short plain_env (WithReply 1 (Set [255] [1] None None) 9) (store stream_server)"
    by (simp add: envelope_short_def execute_short_def short st(1))
  moreover have "envelope_ok (WithReply 1 (Set [255] [1] None None) 9)"
    by (simp add: envelope_ok_def executable_def decoded_ok_def)
  ultimately show ?thesis
    using panics_exactly [OF st(2) plain_env_ok] tx by blast
qed

end
