(* ===== verification/Snapshot.thy ===== *)
theory Snapshot
  imports Server
begin

text \<open>
  The RDB file that a replica is sent (\<open>AddReplica\<close>), and what a server started from that file
  holds: exactly the string keys, with their expiry. Lists and streams are not in the file.
\<close>

section \<open>From the store to the file\<close>

lemma map_of_hm_iter:
  assumes "iteration_order ord" and "hm_wf m"
  shows "map_of (hm_iter ord m) = hm_get m"
proof
  fix k
  have "distinct (map fst (hm_iter ord m))"
    using assms by (simp add: map_fst_hm_iter hm_wf_def iteration_order_distinct)
  then have "map_of (hm_iter ord m) k = Some v \<longleftrightarrow> hm_get m k = Some v" for v
    using assms by (simp add: set_hm_iter hm_get_iff_mem)
  then show "map_of (hm_iter ord m) k = hm_get m k"
    by (cases "hm_get m k") (auto intro: option.exhaust)
qed

text \<open>What of an entry goes into the file.\<close>

definition saved :: "entry \<Rightarrow> rdb_string option" where
  "saved v = (case prim v of Str s \<Rightarrow> Some (rdb_of_entry s (expire_ms v)) | _ \<Rightarrow> None)"

definition save_entry :: "key \<times> entry \<Rightarrow> rdb \<Rightarrow> rdb" where
  "save_entry x r = (case saved (snd x) of Some s \<Rightarrow> rdb_set (fst x) s r | None \<Rightarrow> r)"

lemma to_rdb_eq: "to_rdb e st = fold save_entry (hm_iter (key_order e) (data st)) rdb_new"
proof -
  have "(\<lambda>(k, v) r. case prim v of Str s \<Rightarrow> rdb_set k (rdb_of_entry s (expire_ms v)) r | _ \<Rightarrow> r) = save_entry"
    by (auto simp: save_entry_def saved_def fun_eq_iff split: primitive_value.splits)
  then show ?thesis
    by (simp add: to_rdb_def)
qed

lemma get_save_entries:
  "distinct (map fst kvs) \<Longrightarrow> hm_get (rdb_data (fold save_entry kvs r)) k =
     (case map_of kvs k of
        Some v \<Rightarrow> (case saved v of Some s \<Rightarrow> Some s | None \<Rightarrow> hm_get (rdb_data r) k)
      | None \<Rightarrow> hm_get (rdb_data r) k)"
proof (induction kvs arbitrary: r)
  case (Cons x kvs)
  have "fst x = k \<Longrightarrow> map_of kvs k = None"
    using Cons.prems by (auto simp: map_of_eq_None_iff)
  with Cons show ?case
    by (cases x) (auto simp: save_entry_def rdb_set_def map_simps split: option.splits)
qed simp

lemma length_hm_insert: "length (hm_insert k v m) \<le> Suc (length m)"
  by (induction m) auto

lemma save_entry_wf:
  "metadata (save_entry x r) = metadata r" "hm_wf (rdb_data r) \<Longrightarrow> hm_wf (rdb_data (save_entry x r))"
  "length (rdb_data (save_entry x r)) \<le> Suc (length (rdb_data r))"
  by (auto simp: save_entry_def rdb_set_def length_hm_insert split: option.splits)

lemma save_entries_wf:
  "metadata (fold save_entry kvs r) = metadata r
   \<and> (hm_wf (rdb_data r) \<longrightarrow> hm_wf (rdb_data (fold save_entry kvs r)))
   \<and> length (rdb_data (fold save_entry kvs r)) \<le> length (rdb_data r) + length kvs"
proof (induction kvs arbitrary: r)
  case (Cons x kvs)
  show ?case
    using Cons [of "save_entry x r"] save_entry_wf [where x = x and r = r] by simp
qed simp

definition snapshot_fits :: "store \<Rightarrow> bool" where
  "snapshot_fits st \<longleftrightarrow> length (data st) < 2 ^ 32
     \<and> list_all (\<lambda>(k, v). case prim v of Str s \<Rightarrow> length k < 2 ^ 32 \<and> length s < 2 ^ 32 | _ \<Rightarrow> True) (data st)"

lemma to_rdb_ok:
  assumes "env_ok e" and "store_wf st" and "snapshot_fits st"
  shows "rdb_ok (to_rdb e st)"
    and "hm_get (rdb_data (to_rdb e st)) k = Option.bind (hm_get (data st) k) saved"
proof -
  have order: "iteration_order (key_order e)" and wf: "hm_wf (data st)"
    using assms by (simp_all add: env_ok_def store_wf_def data_wf_def)
  note keys = map_fst_hm_iter [OF order wf]
  have distinct: "distinct (map fst (hm_iter (key_order e) (data st)))"
    using order wf by (simp add: keys hm_wf_def iteration_order_distinct)
  have "length (hm_iter (key_order e) (data st)) = card (fst ` set (data st))"
    using distinct_card [OF distinct] set_hm_iter [OF order wf] by simp
  then have len: "length (hm_iter (key_order e) (data st)) \<le> length (data st)"
    using card_length [of "map fst (data st)"] by simp
  show get: "hm_get (rdb_data (to_rdb e st)) k = Option.bind (hm_get (data st) k) saved" for k
    using get_save_entries [OF distinct, of rdb_new k]
    by (simp add: to_rdb_eq map_of_hm_iter [OF order wf] rdb_new_def hm_get_def split: option.splits)
  have wf': "hm_wf (rdb_data (to_rdb e st))" "metadata (to_rdb e st) = []"
      "length (rdb_data (to_rdb e st)) \<le> length (data st)"
    using save_entries_wf [of "hm_iter (key_order e) (data st)" rdb_new] len
    by (auto simp: to_rdb_eq rdb_new_def hm_wf_def)
  have "rdb_entry_ok x" if "x \<in> set (rdb_data (to_rdb e st))" for x
  proof -
    obtain k s where x: "x = (k, s)"
      by (cases x)
    then have "Option.bind (hm_get (data st) k) saved = Some s"
      using that get hm_get_iff_mem [OF wf'(1)] by metis
    then obtain v t where "hm_get (data st) k = Some v" "prim v = Str t" "s = rdb_of_entry t (expire_ms v)"
      by (auto simp: saved_def split: Option.bind_splits primitive_value.splits)
    with assms(3) hm_get_mem [of "data st" k v] show ?thesis
      by (auto simp: x rdb_of_entry_def snapshot_fits_def list_all_iff)
  qed
  with wf' assms(3) show "rdb_ok (to_rdb e st)"
    by (auto simp: rdb_ok_def snapshot_fits_def list_all_iff hm_wf_def)
qed

section \<open>From the file to the store\<close>

lemma get_fold_insert:
  "hm_get (fold (\<lambda>(k, v). hm_insert k (f v)) kvs m) k =
     (case map_of (rev kvs) k of Some v \<Rightarrow> Some (f v) | None \<Rightarrow> hm_get m k)"
  by (induction kvs arbitrary: m) (auto simp: map_simps map_add_def split: option.splits)

lemma from_rdb_data:
  assumes "env_ok e" and "hm_wf (rdb_data r)"
  shows "hm_get (data (from_rdb e replica cfg r)) k = map_option entry_of_rdb (hm_get (rdb_data r) k)"
proof -
  have order: "iteration_order (key_order e)"
    using assms by (simp add: env_ok_def)
  have "map_of (rev (hm_iter (key_order e) (rdb_data r))) = hm_get (rdb_data r)"
    using hm_get_collect_iter [OF order assms(2)] by (simp add: hm_get_collect)
  then show ?thesis
    by (simp add: from_rdb_def fresh_store_def get_fold_insert split: option.splits)
qed

lemma entry_of_saved: "saved v = Some s \<Longrightarrow> entry_of_rdb s = v"
  by (cases v) (auto simp: saved_def entry_of_rdb_def rdb_of_entry_def split: primitive_value.splits option.splits)

definition is_string :: "entry \<Rightarrow> bool" where
  "is_string v = (case prim v of Str _ \<Rightarrow> True | _ \<Rightarrow> False)"

text \<open>
  C15. A resynchronisation carries every string: the file that a new replica is sent is parsed
  again, and a server started from it holds exactly the string keys of the store, each with
  the same value and the same expiry, whatever the orders in which the two servers walk their
  hash maps. (Bounds: fewer than 2^32 keys, keys and values shorter than 2^32 bytes.)
\<close>

theorem snapshot_roundtrip:
  assumes "store_wf st" and "env_ok e" and "env_ok e'" and "snapshot_fits st" and "dbfilename cfg \<noteq> None"
  shows "\<exists>f st'. snd (add_replica e c chan st) = [SendReply chan (File f)]
    \<and> store_new e' (\<lambda>_. Some f) replica cfg = Return st'
    \<and> (\<forall>k. hm_get (data st') k =
          (case hm_get (data st) k of Some v \<Rightarrow> if is_string v then Some v else None | None \<Rightarrow> None))"
proof -
  define f where "f = serialize (key_order e) (to_rdb e st)"
  have order: "iteration_order (key_order e)"
    using assms(2) by (simp add: env_ok_def)
  note ok = to_rdb_ok [OF assms(2,1,4)]
  define r where "r = \<lparr>metadata = hm_collect (hm_iter (key_order e) (metadata (to_rdb e st))),
      rdb_data = hm_collect (hm_iter (key_order e) (rdb_data (to_rdb e st)))\<rparr>"
  have parsed: "deserialize f = POk r []"
    using deserialize_serialize [OF order ok(1)] by (simp add: f_def r_def)
  have r: "hm_wf (rdb_data r)" "hm_get (rdb_data r) = hm_get (rdb_data (to_rdb e st))"
    using hm_get_collect_iter [OF order, of "rdb_data (to_rdb e st)"] ok(1) by (simp_all add: r_def rdb_ok_def)
  have "store_new e' (\<lambda>_. Some f) replica cfg = Return (from_rdb e' replica cfg r)"
    using assms(5) by (auto simp: store_new_def read_from_file_def parsed)
  moreover have "hm_get (data (from_rdb e' replica cfg r)) k =
      (case hm_get (data st) k of Some v \<Rightarrow> if is_string v then Some v else None | None \<Rightarrow> None)" for k
  proof -
    have "map_option entry_of_rdb (saved v) = (if is_string v then Some v else None)" for v
      using entry_of_saved [of v] by (auto simp: saved_def is_string_def split: primitive_value.splits)
    then show ?thesis
      using from_rdb_data [OF assms(3) r(1), of replica cfg k]
      by (simp add: r(2) ok(2) split: option.splits Option.bind_splits)
  qed
  moreover have "to_rdb e (st\<lparr>clients := cs\<rparr>) = to_rdb e st" for cs
    by (simp add: to_rdb_def)
  ultimately show ?thesis
    by (intro exI [of _ f] exI [of _ "from_rdb e' replica cfg r"]) (simp add: add_replica_def Let_def f_def)
qed

text \<open>One key with an expiry, one without, and a list.\<close>

definition saved_store :: store where
  "saved_store = fresh_store False plain_config
     [([1], \<lparr>prim = Str [9], expire_ms = Some 77\<rparr>), ([2], \<lparr>prim = Str [8], expire_ms = None\<rparr>),
      ([3], \<lparr>prim = List [[7]], expire_ms = None\<rparr>)]"

theorem snapshot_roundtrip_witness:
  "\<exists>f st'. snd (add_replica plain_env 5 11 saved_store) = [SendReply 11 (File f)]
    \<and> store_new plain_env (\<lambda>_. Some f) False (plain_config\<lparr>dbfilename := Some [100]\<rparr>) = Return st'
    \<and> hm_get (data st') [1] = Some \<lparr>prim = Str [9], expire_ms = Some 77\<rparr> \<and> hm_get (data st') [3] = None"
proof -
  have "store_wf saved_store" "snapshot_fits saved_store"
    by (auto simp: saved_store_def data_wf_def hm_wf_def snapshot_fits_def intro!: store_wf_fresh)
      (simp add: fresh_store_def)+
  from snapshot_roundtrip [OF this(1) plain_env_ok plain_env_ok this(2), of "plain_config\<lparr>dbfilename := Some [100]\<rparr>" 5 11 False]
  show ?thesis
    by (auto simp: saved_store_def fresh_store_def hm_get_def is_string_def)
qed

end
