(* ===== verification/Spec2Isabelle.thy ===== *)
theory Spec2Isabelle
  imports Geocoding Network Handshake Replication Transactions Panics Snapshot
begin

text \<open>
  A model of a Redis server written in Rust (the crate under \<open>src/src\<close>), and its verification.

  The program. One task owns the store and takes envelopes from a queue (\<open>run_store\<close> in
  \<open>main.rs\<close>); every connection has a task that reads RESP values from its socket, decodes them to
  commands, and either answers itself or posts an envelope with a oneshot channel for the answer
  (\<open>handle_client\<close>, with the mode machine of \<open>client.rs\<close>). \<open>BLPOP\<close>, \<open>XREAD BLOCK\<close> and \<open>WAIT\<close> leave the
  channel in a table of waiters of the store, and a timer task posts a time-out. The store pushes
  commands to replicas and messages to subscribers. A server that is itself a replica has one more
  task that follows its master. \<open>SET\<close> commands are logged to the append-only file (\<open>aof.rs\<close>); an RDB
  file (\<open>rdb.rs\<close>) is read at the start and sent to new replicas.

  The theories, in the order they build on each other.
  \<^item> \<open>Prelude\<close>: machine integers (\<open>u64\<close> and so on are words, so that additions wrap as in a release
    build), panics and the monad \<open>outcome\<close> of calls that may panic, decimal and UTF-8 conversions,
    \<open>types.rs\<close>.
  \<^item> \<open>Collections\<close>: \<open>HashMap\<close>, \<open>HashSet\<close>, \<open>BTreeMap\<close>, \<open>BTreeSet\<close> as lists, with one interface of maps (locale
    \<open>dictionary\<close>, interpreted for hash maps, B-tree maps and, in \<open>SortedSets\<close>, for a sorted set as a map
    from members to scores). Hash iteration order is a parameter: a permutation that the
    environment of a step provides.
  \<^item> \<open>Parser\<close>, \<open>Resp\<close>, \<open>Rdb\<close>: \<open>parser.rs\<close>, \<open>resp.rs\<close>, \<open>rdb.rs\<close>. A parser returns a value and the rest, an error, a
    panic, or \<open>PLoop\<close> when \<open>many0\<close> would repeat a parser that takes no input; the locale
    \<open>consuming_parser\<close> shows that this does not happen, the locale \<open>codec\<close> carries the round trips.
  \<^item> \<open>Float64\<close>, \<open>SortedSets\<close>, \<open>Geocoding\<close>, \<open>PubSub\<close>, \<open>Command\<close>, \<open>Client\<close>: the files of the same names. \<open>f64\<close> is a
    64-bit pattern with exact IEEE-754 rounding.
  \<^item> \<open>StoreState\<close>: \<open>struct Store\<close>, its invariant \<open>store_wf\<close>, the effects of a step (answers, pushes, timers)
    and the tables of waiters (locale \<open>waiter_table\<close>, interpreted for the three tables). \<open>StoreKeys\<close>,
    \<open>StoreLists\<close>, \<open>StoreStreams\<close>, \<open>StoreTx\<close>, \<open>StoreRepl\<close>, \<open>StoreMisc\<close>: the arms of \<open>Store::try_execute\<close> and the methods they call,
    with what each guarantees (\<open>keeps\<close>) and its functional properties. \<open>TryExecute\<close>: the \<open>match\<close> itself and
    the execution of a transaction.
  \<^item> \<open>Aof\<close>, \<open>Server\<close>: the append-only file over a file system that is a map from paths to contents, and
    the handler of every envelope (\<open>handle\<close>).
  \<^item> \<open>ClientTask\<close>, \<open>Replica\<close>: the loops of \<open>handle_client\<close> and \<open>run_replica_server\<close>. A socket is a byte string and
    the sizes of the reads from it; each read gives at most 1024 bytes and is parsed on its own. \<open>Cuts\<close>: what
    the parser does with values that such a read cuts.
  \<^item> \<open>Wakeups\<close>, \<open>System\<close>: the store task and its timers as a transition system from the set-up of \<open>main\<close>
    (\<open>boot\<close>), with its invariant; \<open>Connections\<close>, \<open>Network\<close>: any number of connection tasks composed with it,
    under every interleaving; \<open>Handshake\<close>, \<open>Replication\<close>, \<open>Snapshot\<close>, \<open>Transactions\<close>, \<open>Panics\<close>: properties that span components.

  What the theorems show. Data: every encoding is read back (RESP, RDB, geohash, commands on the wire, log
  and replay of the append-only file, the file of a resynchronisation). Commands: lists, streams,
  sorted sets, counters and expiry refine their abstract data types; which envelopes panic the store
  task is characterised exactly (\<open>SET\<close> of a key that is not UTF-8 and transactions included). Store: the invariant holds in every reachable state, no reply channel is
  lost or used twice, no wake-up is missed, blocked clients time out, and an \<open>EXEC\<close> after a
  modification by another client is refused. Connections: what they post is accepted, an
  unauthenticated one reaches nothing but \<open>AUTH\<close>, and none waits for an answer that is not coming.
  Replication, for reads of at most 1024 bytes cut anywhere: the replica panics, or its store has been given
  exactly the commands that have arrived; with reads that end between commands a resynchronisation
  completes (if the file fits into a read, and never otherwise), and a replica that has the master's
  contents keeps them under \<open>SET\<close> without expiry, with its offset in step with \<open>master_ack\<close> as long as no
  \<open>GETACK\<close> is sent.

  Parameters and bounds. A step takes an environment \<open>env\<close>: the clock, the iteration orders (any
  permutations), the digest of the \<open>sha2\<close> crate, and the trigonometric functions of the platform.
  Properties of lists assume fewer than 2^31 elements where the code casts lengths to \<open>i32\<close>, those of
  encodings lengths below 2^64 (2^32 in an RDB file). There is no fuel: every recursion is
  structural or has a termination proof. \<open>parsed_resps\<close> and the start from an RDB file turn \<open>PLoop\<close> into a
  panic only to be total: \<open>parse_resp_returns\<close> and \<open>deserialize_outcome\<close> show that the case never arises.

  Not modelled: the command-line arguments (\<open>clap\<close>), TCP connections and their errors other than a write
  that fails, the text of \<open>Display\<close> and log output, and the capacity of the channels: they are
  unbounded here, a full one (1024 entries) suspends its sender in the program. Time appears only in the clock
  of the environment; timers may fire at any moment, and fairness of the scheduler is not assumed.
\<close>

end
